theory Spec2Isabelle
  imports Main
begin

section \<open>JavaScript string primitives\<close>

text \<open>
  A JavaScript string is modelled as a \<^typ>\<open>string\<close> whose characters are the code units
  below 256 (the Latin-1 range, which contains every character of a host name, of a path
  and of a channel identifier). On these code units \<open>toLowerCase\<close> maps \<open>A\<close>..\<open>Z\<close> and
  the accented capitals \<open>0xC0\<close>..\<open>0xDE\<close> (without the multiplication sign \<open>0xD7\<close>) to the
  code unit 32 above, and \<open>trim\<close> removes tab, line feed, vertical tab, form feed,
  carriage return, space and the no-break space \<open>0xA0\<close> from both ends.
\<close>

definition lower_char :: "char \<Rightarrow> char" where
  "lower_char c =
     (let n = (of_char c :: nat)
      in if (65 \<le> n \<and> n \<le> 90) \<or> (192 \<le> n \<and> n \<le> 222 \<and> n \<noteq> 215)
         then char_of (n + 32) else c)"

definition toLowerCase :: "string \<Rightarrow> string" where
  "toLowerCase s = map lower_char s"

definition is_space :: "char \<Rightarrow> bool" where
  "is_space c = ((of_char c :: nat) \<in> {9, 10, 11, 12, 13, 32, 160})"

definition trim :: "string \<Rightarrow> string" where
  "trim s = rev (dropWhile is_space (rev (dropWhile is_space s)))"

definition startsWith :: "string \<Rightarrow> string \<Rightarrow> bool" where
  "startsWith s t = (take (length t) s = t)"

definition endsWith :: "string \<Rightarrow> string \<Rightarrow> bool" where
  "endsWith s t = (length t \<le> length s \<and> drop (length s - length t) s = t)"

text \<open>\<open>arr.indexOf(x)\<close>: the first index holding \<open>x\<close>, or \<open>-1\<close>.\<close>

fun indexOf :: "'a list \<Rightarrow> 'a \<Rightarrow> int" where
  "indexOf [] x = -1"
| "indexOf (y # ys) x =
     (if y = x then 0 else (let r = indexOf ys x in if r < 0 then -1 else r + 1))"

text \<open>
  \<open>arr.filter((v, index, arr) => v && arr.indexOf(v) === index)\<close> on an array of strings:
  the callback sees the element, its index and the whole array.
\<close>

definition filter_first_nonempty :: "string list \<Rightarrow> string list" where
  "filter_first_nonempty arr =
     map fst (filter (\<lambda>(v, index). v \<noteq> [] \<and> indexOf arr v = int index)
                (zip arr [0..<length arr]))"

text \<open>\<open>new Set(arr)\<close>: insertion order, an element already present is not added again.\<close>

definition new_Set :: "'a list \<Rightarrow> 'a list" where
  "new_Set arr = fold (\<lambda>x acc. if x \<in> set acc then acc else acc @ [x]) arr []"

section \<open>Host matching (background script)\<close>

text \<open>\<open>normalizeHostForMatching\<close>: the empty string for a falsy host, else
  \<open>host.toString().trim().toLowerCase().replace(/^www\./, '')\<close>.\<close>

definition normalizeHostForMatching :: "string \<Rightarrow> string" where
  "normalizeHostForMatching host =
     (if host = [] then []
      else (let s = toLowerCase (trim host)
            in if startsWith s ''www.'' then drop 4 s else s))"

text \<open>The set built at the head of \<open>enforceOpenTabs\<close>:
  \<open>new Set(blockedHosts.filter(Boolean).map(normalizeHostForMatching).filter(Boolean))\<close>.\<close>

definition blockedHostSet :: "string list \<Rightarrow> string list" where
  "blockedHostSet blockedHosts =
     new_Set (filter (\<lambda>h. h \<noteq> [])
        (map normalizeHostForMatching (filter (\<lambda>h. h \<noteq> []) blockedHosts)))"

text \<open>The \<open>for (const blocked of blockedHostSet)\<close> loop of \<open>isHostBlocked\<close>.\<close>

fun isHostBlocked_loop :: "string \<Rightarrow> string list \<Rightarrow> bool" where
  "isHostBlocked_loop normalized [] = False"
| "isHostBlocked_loop normalized (blocked # rest) =
     (if normalized = blocked \<or> endsWith normalized (CHR ''.'' # blocked) then True
      else isHostBlocked_loop normalized rest)"

definition isHostBlocked :: "string \<Rightarrow> string list \<Rightarrow> bool" where
  "isHostBlocked hostname blockedSet =
     (if hostname = [] \<or> blockedSet = [] then False
      else (let normalized = normalizeHostForMatching hostname
            in if normalized = [] then False
               else isHostBlocked_loop normalized blockedSet))"

section \<open>Policy compiler (background script)\<close>

text \<open>The configuration object read from \<open>chrome.storage.sync\<close>, after the coercions of
  \<open>normalizeBoolean\<close> and \<open>ensureArray\<close>: the switches are booleans, the lists are arrays
  of strings.\<close>

record config =
  blockedHosts :: "string list"
  allowedSubreddits :: "string list"
  blockReddit :: bool
  extensionEnabled :: bool
  blockedYouTubeChannels :: "string list"

definition RULE_OFFSETS_BLOCKED_HOSTS :: nat where "RULE_OFFSETS_BLOCKED_HOSTS = 10000"
definition RULE_OFFSETS_REDDIT_BLOCK :: nat where "RULE_OFFSETS_REDDIT_BLOCK = 20000"
definition RULE_OFFSETS_ALLOWED_SUBREDDITS :: nat where "RULE_OFFSETS_ALLOWED_SUBREDDITS = 30000"

definition RULE_PRIORITIES_BLOCK :: nat where "RULE_PRIORITIES_BLOCK = 1"
definition RULE_PRIORITIES_ALLOW :: nat where "RULE_PRIORITIES_ALLOW = 100"

datatype action_type = Block | Allow

datatype resource_type = MainFrame

record rule =
  rule_id :: nat
  priority :: nat
  action :: action_type
  urlFilter :: string
  resourceTypes :: "resource_type list"

text \<open>\<open>forEach((v, index) => rules.push(mk(v, index)))\<close>.\<close>

definition push_each :: "('a \<Rightarrow> nat \<Rightarrow> 'b) \<Rightarrow> 'a list \<Rightarrow> 'b list \<Rightarrow> 'b list" where
  "push_each mk vs rules = rules @ map (\<lambda>(v, index). mk v index) (zip vs [0..<length vs])"

definition blockedHostRule :: "string \<Rightarrow> nat \<Rightarrow> rule" where
  "blockedHostRule host index =
     \<lparr>rule_id = RULE_OFFSETS_BLOCKED_HOSTS + index, priority = RULE_PRIORITIES_BLOCK,
      action = Block, urlFilter = ''||'' @ host, resourceTypes = [MainFrame]\<rparr>"

definition appendBlockedHostRules :: "rule list \<Rightarrow> string list \<Rightarrow> rule list" where
  "appendBlockedHostRules rules hosts =
     push_each blockedHostRule
       (filter_first_nonempty
          (map (\<lambda>host. toLowerCase (trim host)) (filter (\<lambda>h. h \<noteq> []) hosts)))
       rules"

definition createRedditBlockRule :: rule where
  "createRedditBlockRule =
     \<lparr>rule_id = RULE_OFFSETS_REDDIT_BLOCK, priority = RULE_PRIORITIES_BLOCK,
      action = Block, urlFilter = ''||reddit.com^'', resourceTypes = [MainFrame]\<rparr>"

text \<open>\<open>s.replace(/^\/?r\//i, '')\<close> and \<open>s.replace(/\/+$/, '')\<close>.\<close>

definition strip_r_prefix :: "string \<Rightarrow> string" where
  "strip_r_prefix s =
     (let t = (if startsWith s ''/'' then drop 1 s else s)
      in if startsWith t ''r/'' \<or> startsWith t ''R/'' then drop 2 t else s)"

definition strip_trailing_slashes :: "string \<Rightarrow> string" where
  "strip_trailing_slashes s = rev (dropWhile (\<lambda>c. c = CHR ''/'') (rev s))"

definition normalizeSubreddit :: "string \<Rightarrow> string" where
  "normalizeSubreddit input = toLowerCase (strip_trailing_slashes (strip_r_prefix (trim input)))"

definition allowedSubredditRule :: "string \<Rightarrow> nat \<Rightarrow> rule" where
  "allowedSubredditRule subreddit index =
     \<lparr>rule_id = RULE_OFFSETS_ALLOWED_SUBREDDITS + index, priority = RULE_PRIORITIES_ALLOW,
      action = Allow, urlFilter = ''||reddit.com/r/'' @ subreddit, resourceTypes = [MainFrame]\<rparr>"

definition appendAllowedSubredditRules :: "rule list \<Rightarrow> string list \<Rightarrow> rule list" where
  "appendAllowedSubredditRules rules subreddits =
     push_each allowedSubredditRule
       (filter_first_nonempty (map normalizeSubreddit (filter (\<lambda>s. s \<noteq> []) subreddits)))
       rules"

text \<open>The local array \<open>rules\<close> that \<open>updateAllRules\<close> builds when the master switch is on.\<close>

definition compiledRules :: "config \<Rightarrow> rule list" where
  "compiledRules c =
     (let rules = appendBlockedHostRules [] (blockedHosts c)
      in if blockReddit c
         then appendAllowedSubredditRules (rules @ [createRedditBlockRule]) (allowedSubreddits c)
         else rules)"

text \<open>The declarative filtering facility, as the specification gives its interface:
  \<open>updateDynamicRules({removeRuleIds, addRules})\<close> removes the rules with the listed ids and
  then adds the new ones. Its own limits (a cap on the number of rules, unique ids) are
  outside this model.\<close>

definition updateDynamicRules :: "nat list \<Rightarrow> rule list \<Rightarrow> rule list \<Rightarrow> rule list" where
  "updateDynamicRules removeRuleIds addRules existing =
     filter (\<lambda>r. rule_id r \<notin> set removeRuleIds) existing @ addRules"

section \<open>Scroll and input lock\<close>

text \<open>
  The part of a document the lock touches: the inline styles of the root element and of
  the body (either may be missing), whether the five handlers of the lock are attached to
  the window, and the lock object stored under \<open>window[SCROLL_LOCK_STATE_KEY]\<close>.
  \<open>siteOverlay\<close> is the text of the attached site overlay, \<open>None\<close> when no element with
  \<open>SITE_OVERLAY_ID\<close> is in the document.
\<close>

record body_el =
  body_overflow :: string
  body_touchAction :: string

record doc_el =
  overflow :: string
  overscrollBehavior :: string
  body :: "body_el option"
  maxprodSiteOverlay :: bool

record scroll_lock_state =
  count :: int
  prevDocOverflow :: string
  prevDocOverscroll :: string
  prevBodyOverflow :: string
  prevBodyTouchAction :: string

record page =
  documentElement :: "doc_el option"
  listeners :: bool
  lockState :: "scroll_lock_state option"
  siteOverlay :: "string option"

definition fresh_lock_state :: scroll_lock_state where
  "fresh_lock_state =
     \<lparr>count = 0, prevDocOverflow = [], prevDocOverscroll = [],
      prevBodyOverflow = [], prevBodyTouchAction = []\<rparr>"

definition ensureScrollLockState :: "page \<Rightarrow> scroll_lock_state" where
  "ensureScrollLockState p =
     (case lockState p of Some existing \<Rightarrow> existing | None \<Rightarrow> fresh_lock_state)"

text \<open>\<open>lockScroll\<close> of the content scripts; the copy inside \<open>applySiteOverlay\<close> differs
  only in taking the key as an argument.\<close>

definition lockScroll :: "page \<Rightarrow> page" where
  "lockScroll p =
     (case documentElement p of
        None \<Rightarrow> p
      | Some docEl \<Rightarrow>
          (let stateObj = ensureScrollLockState p
           in if count stateObj = 0
              then
                (let st1 = stateObj\<lparr>prevDocOverflow := overflow docEl,
                                    prevDocOverscroll := overscrollBehavior docEl\<rparr>;
                     st2 = (case body docEl of
                              None \<Rightarrow> st1
                            | Some b \<Rightarrow> st1\<lparr>prevBodyOverflow := body_overflow b,
                                            prevBodyTouchAction := body_touchAction b\<rparr>);
                     docEl' = docEl\<lparr>overflow := ''hidden'', overscrollBehavior := ''none'',
                                body := map_option
                                  (\<lambda>b. b\<lparr>body_overflow := ''hidden'', body_touchAction := ''none''\<rparr>)
                                  (body docEl)\<rparr>
                 in p\<lparr>documentElement := Some docEl', listeners := True,
                      lockState := Some (st2\<lparr>count := count st2 + 1\<rparr>)\<rparr>)
              else p\<lparr>lockState := Some (stateObj\<lparr>count := count stateObj + 1\<rparr>)\<rparr>))"

definition unlockScroll :: "page \<Rightarrow> page" where
  "unlockScroll p =
     (case lockState p of
        None \<Rightarrow> p
      | Some stateObj \<Rightarrow>
          (let c = max 0 (count stateObj - 1)
           in if c > 0 then p\<lparr>lockState := Some (stateObj\<lparr>count := c\<rparr>)\<rparr>
              else p\<lparr>documentElement :=
                       map_option
                         (\<lambda>docEl. docEl\<lparr>overflow := prevDocOverflow stateObj,
                                         overscrollBehavior := prevDocOverscroll stateObj,
                                         body := map_option
                                           (\<lambda>b. b\<lparr>body_overflow := prevBodyOverflow stateObj,
                                                   body_touchAction := prevBodyTouchAction stateObj\<rparr>)
                                           (body docEl)\<rparr>)
                         (documentElement p),
                     listeners := False,
                     lockState := None\<rparr>))"

section \<open>Open-tab reconciler (background script)\<close>

text \<open>
  The function injected by \<open>applySiteOverlay\<close>, on the document it runs in. Without a root
  (\<open>document.body || document.documentElement\<close>) it returns at once. \<open>window.stop\<close>,
  \<open>scrollTo\<close> and \<open>focus\<close> leave no trace in the modelled part of the document.
\<close>

definition applySiteOverlay_func :: "string \<Rightarrow> page \<Rightarrow> page" where
  "applySiteOverlay_func host p =
     (case documentElement p of
        None \<Rightarrow> p
      | Some _ \<Rightarrow>
          (let wasActive = (siteOverlay p \<noteq> None);
               p1 = p\<lparr>siteOverlay := Some (host @ '' is blocked by Maxprod.'')\<rparr>;
               p2 = (if \<not> wasActive then lockScroll p1 else p1)
           in p2\<lparr>documentElement :=
                   map_option (\<lambda>d. d\<lparr>maxprodSiteOverlay := True\<rparr>) (documentElement p2)\<rparr>))"

text \<open>The function injected by \<open>removeSiteOverlay\<close>.\<close>

definition removeSiteOverlay_func :: "page \<Rightarrow> page" where
  "removeSiteOverlay_func p =
     (let wasActive = (siteOverlay p \<noteq> None);
          p1 = (if wasActive then unlockScroll (p\<lparr>siteOverlay := None\<rparr>) else p)
      in p1\<lparr>documentElement :=
              map_option (\<lambda>d. d\<lparr>maxprodSiteOverlay := False\<rparr>) (documentElement p1)\<rparr>)"

text \<open>
  An open tab as \<open>chrome.tabs.query\<close> reports it. \<open>tab_id\<close> and \<open>tab_url\<close> may be
  undefined; \<open>url_hostname\<close> is what \<open>new URL(tab.url).hostname\<close> evaluates to, \<open>None\<close>
  when the constructor throws; \<open>scriptable\<close> tells whether \<open>chrome.scripting.executeScript\<close>
  can run in the tab (it throws on privileged pages, and the callers swallow that).
\<close>

record tab =
  tab_id :: "int option"
  tab_url :: "string option"
  url_hostname :: "string option"
  scriptable :: bool
  tab_page :: page

definition executeScript :: "(page \<Rightarrow> page) \<Rightarrow> tab \<Rightarrow> tab" where
  "executeScript func t = (if scriptable t then t\<lparr>tab_page := func (tab_page t)\<rparr> else t)"

definition applySiteOverlay :: "tab \<Rightarrow> string \<Rightarrow> tab" where
  "applySiteOverlay t hostname = executeScript (applySiteOverlay_func hostname) t"

definition removeSiteOverlay :: "tab \<Rightarrow> tab" where
  "removeSiteOverlay t = executeScript removeSiteOverlay_func t"

text \<open>\<open>/^https?:/i.test(url)\<close>.\<close>

definition is_http_url :: "string \<Rightarrow> bool" where
  "is_http_url url = (startsWith (toLowerCase url) ''http:'' \<or> startsWith (toLowerCase url) ''https:'')"

definition getHostnameFromUrl :: "tab \<Rightarrow> string option" where
  "getHostnameFromUrl t = map_option toLowerCase (url_hostname t)"

text \<open>The callback \<open>enforceOpenTabs\<close> runs on each tab.\<close>

definition enforceTab :: "bool \<Rightarrow> string list \<Rightarrow> tab \<Rightarrow> tab" where
  "enforceTab enabled blockedSet t =
     (if tab_id t = None \<or> tab_id t = Some 0 then t
      else (case tab_url t of
              None \<Rightarrow> t
            | Some url \<Rightarrow>
                if url = [] \<or> \<not> is_http_url url then t
                else (case getHostnameFromUrl t of
                        None \<Rightarrow> t
                      | Some hostname \<Rightarrow>
                          if hostname = [] then t
                          else if \<not> enabled then removeSiteOverlay t
                          else if endsWith hostname ''reddit.com'' then removeSiteOverlay t
                          else if isHostBlocked hostname blockedSet then applySiteOverlay t hostname
                          else removeSiteOverlay t)))"

definition enforceOpenTabs :: "bool \<Rightarrow> string list \<Rightarrow> tab list \<Rightarrow> tab list" where
  "enforceOpenTabs enabled hosts tabs = map (enforceTab enabled (blockedHostSet hosts)) tabs"

record browser =
  dynamicRules :: "rule list"
  openTabs :: "tab list"

definition updateAllRules :: "config \<Rightarrow> browser \<Rightarrow> browser" where
  "updateAllRules state b =
     (let removeRuleIds = map rule_id (dynamicRules b)
      in if \<not> extensionEnabled state
         then
           (let b1 = (if length removeRuleIds > 0
                      then b\<lparr>dynamicRules := updateDynamicRules removeRuleIds [] (dynamicRules b)\<rparr>
                      else b)
            in b1\<lparr>openTabs := enforceOpenTabs (extensionEnabled state) (blockedHosts state) (openTabs b1)\<rparr>)
         else
           (let b1 = b\<lparr>dynamicRules :=
                         updateDynamicRules removeRuleIds (compiledRules state) (dynamicRules b)\<rparr>
            in b1\<lparr>openTabs := enforceOpenTabs (extensionEnabled state) (blockedHosts state) (openTabs b1)\<rparr>))"

section \<open>Community-site content script\<close>

text \<open>The module variables \<open>state\<close> and \<open>allowedSet\<close> of the content script.\<close>

record reddit_script =
  state :: config
  allowedSet :: "string list"

text \<open>\<open>normalizeSubreddit\<close> of the content script returns null for a falsy value.\<close>

definition normalizeSubreddit_cs :: "string \<Rightarrow> string option" where
  "normalizeSubreddit_cs v = (if v = [] then None else Some (normalizeSubreddit v))"

text \<open>JavaScript truthiness of a string that may be null.\<close>

definition truthy :: "string option \<Rightarrow> bool" where
  "truthy v = (v \<noteq> None \<and> v \<noteq> Some [])"

text \<open>\<open>arr.filter(Boolean)\<close> on strings that may be null.\<close>

definition filter_Boolean :: "string option list \<Rightarrow> string list" where
  "filter_Boolean arr = List.map_filter (\<lambda>v. if truthy v then v else None) arr"

definition rebuildSets :: "reddit_script \<Rightarrow> reddit_script" where
  "rebuildSets rs =
     rs\<lparr>allowedSet :=
          new_Set (filter_Boolean (map normalizeSubreddit_cs (allowedSubreddits (state rs))))\<rparr>"

text \<open>\<open>pathname.match(/^\/r\/([^/]+)(?:\/|$)/i)\<close>: after \<open>/r/\<close> the group takes the longest
  run of characters other than \<open>/\<close>, which the end of the input or a \<open>/\<close> follows.\<close>

definition extractSubreddit :: "string \<Rightarrow> string option" where
  "extractSubreddit pathname =
     (if startsWith pathname ''/r/'' \<or> startsWith pathname ''/R/''
      then (let m = takeWhile (\<lambda>c. c \<noteq> CHR ''/'') (drop 3 pathname)
            in if m = [] then None else normalizeSubreddit_cs m)
      else None)"

text \<open>\<open>s.includes(t)\<close>.\<close>

fun str_includes :: "string \<Rightarrow> string \<Rightarrow> bool" where
  "str_includes [] t = (t = [])"
| "str_includes (c # cs) t = (startsWith (c # cs) t \<or> str_includes cs t)"

definition isHomepage :: "string \<Rightarrow> string \<Rightarrow> bool" where
  "isHomepage pathname search =
     (if pathname = ''/'' \<or> pathname = [] then True
      else if pathname \<in> set [''/hot'', ''/best'', ''/new'', ''/top'', ''/r/all'', ''/r/popular'']
        then True
      else if pathname = ''/'' \<and> search \<noteq> [] \<and> \<not> str_includes search ''r='' then True
      else False)"

datatype block_reason = Subreddit string | Homepage | Global

definition determineBlockReason :: "reddit_script \<Rightarrow> string \<Rightarrow> string \<Rightarrow> block_reason option" where
  "determineBlockReason rs pathname search =
     (if \<not> blockReddit (state rs) then None
      else (let lowerPath = toLowerCase pathname;
                subreddit = extractSubreddit lowerPath
            in case (if truthy subreddit then subreddit else None) of
                 Some sub \<Rightarrow>
                   if sub \<in> set (allowedSet rs) then None else Some (Subreddit sub)
               | None \<Rightarrow>
                   if isHomepage lowerPath search then Some Homepage else Some Global))"

datatype overlay_decision = Clear | Showing block_reason

text \<open>What \<open>checkLocation\<close> decides when it evaluates the current location (\<open>force\<close>, or the
  decision key changed): off the community site and with the master switch off the overlay
  is cleared, else the block reason decides. An empty \<open>pathname\<close> reads as \<open>/\<close>.\<close>

definition checkLocation :: "reddit_script \<Rightarrow> string \<Rightarrow> string \<Rightarrow> string \<Rightarrow> overlay_decision" where
  "checkLocation rs hostname pathname search =
     (if \<not> endsWith (toLowerCase hostname) ''reddit.com'' then Clear
      else if \<not> extensionEnabled (state rs) then Clear
      else (case determineBlockReason rs (if pathname = [] then ''/'' else pathname) search of
              None \<Rightarrow> Clear
            | Some reason \<Rightarrow> Showing reason))"

section \<open>Video-site blocklist (background script)\<close>

datatype entry_type = Id_type | Handle_type | Name_type

record channel_entry =
  entry_type :: entry_type
  entry_value :: string

text \<open>\<open>s.split('/')\<close> and \<open>s.split('/').filter(Boolean)\<close>.\<close>

fun split_slash :: "string \<Rightarrow> string list" where
  "split_slash [] = [[]]"
| "split_slash (c # cs) =
     (if c = CHR ''/'' then [] # split_slash cs
      else (case split_slash cs of [] \<Rightarrow> [[c]] | w # ws \<Rightarrow> (c # w) # ws))"

definition path_segments :: "string \<Rightarrow> string list" where
  "path_segments pathname = filter (\<lambda>seg. seg \<noteq> []) (split_slash pathname)"

text \<open>\<open>/^uc[A-Za-z0-9_-]{22}$/i.test(raw)\<close>.\<close>

definition is_id_char :: "char \<Rightarrow> bool" where
  "is_id_char c =
     (let n = (of_char c :: nat)
      in (65 \<le> n \<and> n \<le> 90) \<or> (97 \<le> n \<and> n \<le> 122) \<or> (48 \<le> n \<and> n \<le> 57)
         \<or> c = CHR ''_'' \<or> c = CHR ''-'')"

definition is_channel_id :: "string \<Rightarrow> bool" where
  "is_channel_id raw =
     (length raw = 24 \<and> toLowerCase (take 2 raw) = ''uc'' \<and> list_all is_id_char (drop 2 raw))"

text \<open>\<open>/^https?:\/\//i.test(raw)\<close>.\<close>

definition is_http_link :: "string \<Rightarrow> bool" where
  "is_http_link raw =
     (startsWith (toLowerCase raw) ''http://'' \<or> startsWith (toLowerCase raw) ''https://'')"

text \<open>
  The rewriting of a link inside \<open>normalizeYouTubeChannelEntry\<close>. The platform's URL parser
  is a parameter: \<open>pathname_of raw\<close> is \<open>new URL(raw).pathname\<close>, \<open>None\<close> when the
  constructor throws. Any exception inside the \<open>try\<close> block leaves \<open>raw\<close> as it was.
\<close>

definition rewrite_link :: "(string \<Rightarrow> string option) \<Rightarrow> string \<Rightarrow> string" where
  "rewrite_link pathname_of raw =
     (case pathname_of raw of
        None \<Rightarrow> raw
      | Some pathname \<Rightarrow>
          if startsWith pathname ''/channel/'' then
            (case path_segments pathname of
               _ # seg # _ \<Rightarrow> seg
             | _ \<Rightarrow> raw)
          else if startsWith pathname ''/@'' then
            (case path_segments pathname of
               seg # _ \<Rightarrow> CHR ''@'' # (if startsWith seg ''@'' then drop 1 seg else seg)
             | [] \<Rightarrow> raw)
          else if startsWith pathname ''/c/'' then
            (case path_segments pathname of
               _ # seg # _ \<Rightarrow> seg
             | _ \<Rightarrow> raw)
          else raw)"

definition normalizeYouTubeChannelEntry ::
  "(string \<Rightarrow> string option) \<Rightarrow> string \<Rightarrow> channel_entry option" where
  "normalizeYouTubeChannelEntry pathname_of v =
     (if v = [] then None
      else (let raw0 = trim v
            in if raw0 = [] then None
               else (let raw = (if is_http_link raw0 then rewrite_link pathname_of raw0 else raw0)
                     in if is_channel_id raw
                          then Some \<lparr>entry_type = Id_type, entry_value = toLowerCase raw\<rparr>
                        else if startsWith raw ''@''
                          then Some \<lparr>entry_type = Handle_type, entry_value = toLowerCase (drop 1 raw)\<rparr>
                        else Some \<lparr>entry_type = Name_type, entry_value = toLowerCase raw\<rparr>)))"

record video_info =
  channelId :: string
  channelTitle :: string

text \<open>The loop of \<open>isChannelBlocked\<close> over the entries; an entry may be null.\<close>

fun isChannelBlocked_loop :: "string \<Rightarrow> string \<Rightarrow> string \<Rightarrow> channel_entry option list \<Rightarrow> bool" where
  "isChannelBlocked_loop cid title normalizedHandle [] = False"
| "isChannelBlocked_loop cid title normalizedHandle (entry # rest) =
     (case entry of
        None \<Rightarrow> isChannelBlocked_loop cid title normalizedHandle rest
      | Some e \<Rightarrow>
          if entry_value e = [] then isChannelBlocked_loop cid title normalizedHandle rest
          else if entry_type e = Id_type \<and> entry_value e = cid then True
          else if entry_type e = Name_type \<and> entry_value e = title then True
          else if entry_type e = Handle_type \<and> normalizedHandle \<noteq> []
                  \<and> entry_value e = normalizedHandle then True
          else isChannelBlocked_loop cid title normalizedHandle rest)"

definition isChannelBlocked :: "video_info option \<Rightarrow> channel_entry option list \<Rightarrow> string \<Rightarrow> bool" where
  "isChannelBlocked info entries channelHandle =
     (case info of
        None \<Rightarrow> False
      | Some i \<Rightarrow>
          isChannelBlocked_loop
            (toLowerCase (channelId i))
            (toLowerCase (channelTitle i))
            (toLowerCase (if startsWith channelHandle ''@'' then drop 1 channelHandle else channelHandle))
            entries)"

section \<open>External lookup caches (background script)\<close>

text \<open>A JavaScript \<open>Map\<close> with string keys: the entries in insertion order, one per key.
  \<open>set\<close> on a key already present replaces the value where it stands.\<close>

type_synonym 'a js_map = "(string \<times> 'a) list"

definition Map_get :: "'a js_map \<Rightarrow> string \<Rightarrow> 'a option" where
  "Map_get m k = map_of m k"

definition Map_set :: "string \<Rightarrow> 'a \<Rightarrow> 'a js_map \<Rightarrow> 'a js_map" where
  "Map_set k v m =
     (case map_of m k of
        None \<Rightarrow> m @ [(k, v)]
      | Some _ \<Rightarrow> map (\<lambda>(k', v'). if k' = k then (k', v) else (k', v')) m)"

definition Map_delete :: "string \<Rightarrow> 'a js_map \<Rightarrow> 'a js_map" where
  "Map_delete k m = filter (\<lambda>(k', v'). k' \<noteq> k) m"

record 'a cache_entry =
  timestamp :: int
  data :: "'a option"

definition YOUTUBE_CACHE_TTL_MS :: int where
  "YOUTUBE_CACHE_TTL_MS = 5 * 60 * 1000"

definition YOUTUBE_CHANNEL_CACHE_TTL_MS :: int where
  "YOUTUBE_CHANNEL_CACHE_TTL_MS = 10 * 60 * 1000"

text \<open>The \<open>while (cache.size > MAX_CACHE_ENTRIES && entries.length)\<close> loop of the two prune
  functions: \<open>entries.shift()\<close> takes the head of the sorted entries, whose key is deleted.\<close>

fun prune_loop :: "nat \<Rightarrow> 'a cache_entry js_map \<Rightarrow> 'a cache_entry js_map \<Rightarrow> 'a cache_entry js_map" where
  "prune_loop MAX_CACHE_ENTRIES cache [] = cache"
| "prune_loop MAX_CACHE_ENTRIES cache ((k, e) # entries) =
     (if length cache > MAX_CACHE_ENTRIES
      then prune_loop MAX_CACHE_ENTRIES (Map_delete k cache) entries
      else cache)"

text \<open>The body the two prune functions share; they differ in the constant only.
  \<open>Array.prototype.sort\<close> is stable, as \<^const>\<open>sort_key\<close> is.\<close>

definition pruneCache :: "nat \<Rightarrow> 'a cache_entry js_map \<Rightarrow> 'a cache_entry js_map" where
  "pruneCache MAX_CACHE_ENTRIES cache =
     (if length cache \<le> MAX_CACHE_ENTRIES then cache
      else prune_loop MAX_CACHE_ENTRIES cache (sort_key (\<lambda>(k, e). timestamp e) cache))"

definition pruneYouTubeVideoCache :: "'a cache_entry js_map \<Rightarrow> 'a cache_entry js_map" where
  "pruneYouTubeVideoCache cache = pruneCache 100 cache"

definition pruneYouTubeChannelCache :: "'a cache_entry js_map \<Rightarrow> 'a cache_entry js_map" where
  "pruneYouTubeChannelCache cache = pruneCache 200 cache"

record channel_info =
  handle :: string

text \<open>An external call, by the endpoint and the identifier asked for.\<close>

datatype api_call = VideosCall string | ChannelsCall string

text \<open>The module state of the background script that the lookups touch, and the
  external calls issued so far.\<close>

record bg_state =
  youtubeVideoCache :: "video_info cache_entry js_map"
  youtubeChannelCache :: "channel_info cache_entry js_map"
  fetches :: "api_call list"

text \<open>
  What a \<open>fetch\<close> of the lookup API comes back with: the promise rejects, or the status is
  not in the 2xx range (with the text of the body), or the body is not JSON, or the body
  parses; of a parsed body the model keeps what the code reads from \<open>data?.items?.[0]\<close>.
\<close>

datatype 'a fetch_outcome = FetchRejected | HttpError nat string | BadJson | HttpOk 'a

datatype lookup_error =
    FetchFailed
  | VideoApiError nat string
  | VideoRequestFailed nat
  | ChannelApiError nat string
  | ChannelRequestFailed nat

text \<open>The test \<open>cached && now - cached.timestamp < TTL\<close> of both lookups: the entry when it
  passes.\<close>

definition fresh_entry :: "int \<Rightarrow> int \<Rightarrow> 'a cache_entry option \<Rightarrow> 'a cache_entry option" where
  "fresh_entry ttl now cached =
     (case cached of
        None \<Rightarrow> None
      | Some c \<Rightarrow> if now - timestamp c < ttl then Some c else None)"

text \<open>\<open>fetchYouTubeVideoInfo\<close>. The reply carries, when the first item has a snippet, the
  snippet's \<open>channelId\<close> and \<open>channelTitle\<close> (an absent field reads as the empty string).\<close>

definition fetchYouTubeVideoInfo ::
  "int \<Rightarrow> (string \<times> string) option fetch_outcome \<Rightarrow> string \<Rightarrow> bg_state
     \<Rightarrow> (lookup_error + video_info option) \<times> bg_state" where
  "fetchYouTubeVideoInfo now reply videoId s =
     (case fresh_entry YOUTUBE_CACHE_TTL_MS now (Map_get (youtubeVideoCache s) videoId) of
        Some cached \<Rightarrow> (Inr (data cached), s)
      | None \<Rightarrow>
           (let s1 = s\<lparr>fetches := fetches s @ [VideosCall videoId]\<rparr>
            in case reply of
                 FetchRejected \<Rightarrow> (Inl FetchFailed, s1)
               | HttpError status errorBody \<Rightarrow>
                   (if status = 400 \<or> status = 403 then (Inl (VideoApiError status errorBody), s1)
                    else (Inl (VideoRequestFailed status), s1))
               | BadJson \<Rightarrow> (Inl FetchFailed, s1)
               | HttpOk item \<Rightarrow>
                   (let result = map_option
                          (\<lambda>(cid, title). \<lparr>channelId = trim cid, channelTitle = trim title\<rparr>) item
                    in (Inr result,
                        s1\<lparr>youtubeVideoCache :=
                             pruneYouTubeVideoCache
                               (Map_set videoId \<lparr>timestamp = now, data = result\<rparr>
                                  (youtubeVideoCache s1))\<rparr>))))"

text \<open>\<open>fetchYouTubeChannelInfo\<close>. The reply carries \<open>item?.snippet?.customUrl\<close>.\<close>

definition fetchYouTubeChannelInfo ::
  "int \<Rightarrow> string option fetch_outcome \<Rightarrow> string \<Rightarrow> bg_state
     \<Rightarrow> (lookup_error + channel_info option) \<times> bg_state" where
  "fetchYouTubeChannelInfo now reply cid s =
     (let normalizedId = trim cid
      in if normalizedId = [] then (Inr None, s)
         else
           (case fresh_entry YOUTUBE_CHANNEL_CACHE_TTL_MS now
                   (Map_get (youtubeChannelCache s) normalizedId) of
              Some cached \<Rightarrow> (Inr (data cached), s)
            | None \<Rightarrow>
                 (let s1 = s\<lparr>fetches := fetches s @ [ChannelsCall normalizedId]\<rparr>
                  in case reply of
                       FetchRejected \<Rightarrow> (Inl FetchFailed, s1)
                     | HttpError status errorBody \<Rightarrow>
                         (if status = 400 \<or> status = 403
                          then (Inl (ChannelApiError status errorBody), s1)
                          else (Inl (ChannelRequestFailed status), s1))
                     | BadJson \<Rightarrow> (Inl FetchFailed, s1)
                     | HttpOk customUrl \<Rightarrow>
                         (let h = (case customUrl of
                                     None \<Rightarrow> []
                                   | Some u \<Rightarrow> if u = [] then [] else toLowerCase (trim u));
                              result = \<lparr>handle = h\<rparr>
                          in (Inr (Some result),
                              s1\<lparr>youtubeChannelCache :=
                                   pruneYouTubeChannelCache
                                     (Map_set normalizedId \<lparr>timestamp = now, data = Some result\<rparr>
                                        (youtubeChannelCache s1))\<rparr>)))))"

section \<open>Video check (background script)\<close>

datatype check_reason =
    Invalid_video_id | Extension_disabled | No_blocked_channels | Missing_api_key
  | Video_not_found | Channel_blocked | Channel_allowed

record check_response =
  allowed :: bool
  reason :: check_reason
  response_channel :: "video_info option"

text \<open>Everything \<open>handleYouTubeVideoCheck\<close> reads from outside the script: the value of
  \<open>YOUTUBE_API_KEY\<close> in the parsed \<open>.env\<close> file (\<open>None\<close> when absent), the clock and the
  reply of the API at each of the two lookups, and the platform's URL parser.\<close>

record lookup_env =
  env_key :: "string option"
  video_now :: int
  video_reply :: "(string \<times> string) option fetch_outcome"
  channel_now :: int
  channel_reply :: "string option fetch_outcome"
  pathname_of :: "string \<Rightarrow> string option"

definition getYoutubeApiKeyFromEnv :: "lookup_env \<Rightarrow> string" where
  "getYoutubeApiKeyFromEnv env =
     (case env_key env of None \<Rightarrow> [] | Some key \<Rightarrow> if key = [] then [] else trim key)"

definition normalizedEntries_of :: "lookup_env \<Rightarrow> config \<Rightarrow> channel_entry list" where
  "normalizedEntries_of env stored =
     List.map_filter (normalizeYouTubeChannelEntry (pathname_of env)) (blockedYouTubeChannels stored)"

definition early :: "check_reason \<Rightarrow> check_response" where
  "early r = \<lparr>allowed = True, reason = r, response_channel = None\<rparr>"

definition handleYouTubeVideoCheck ::
  "lookup_env \<Rightarrow> config \<Rightarrow> string option \<Rightarrow> bg_state
     \<Rightarrow> (lookup_error + check_response) \<times> bg_state" where
  "handleYouTubeVideoCheck env stored message_videoId s =
     (let videoId = trim (case message_videoId of None \<Rightarrow> [] | Some v \<Rightarrow> v)
      in if videoId = [] then (Inr (early Invalid_video_id), s)
         else if \<not> extensionEnabled stored then (Inr (early Extension_disabled), s)
         else
           (let normalizedEntries = normalizedEntries_of env stored
            in if length normalizedEntries = 0 then (Inr (early No_blocked_channels), s)
               else if getYoutubeApiKeyFromEnv env = [] then (Inr (early Missing_api_key), s)
               else
                 (case fetchYouTubeVideoInfo (video_now env) (video_reply env) videoId s of
                    (Inl err, s1) \<Rightarrow> (Inl err, s1)
                  | (Inr None, s1) \<Rightarrow> (Inr (early Video_not_found), s1)
                  | (Inr (Some videoInfo), s1) \<Rightarrow>
                      (case (if list_ex (\<lambda>entry. entry_type entry = Handle_type) normalizedEntries
                             then (case fetchYouTubeChannelInfo (channel_now env) (channel_reply env)
                                          (channelId videoInfo) s1 of
                                     (Inl err, s2) \<Rightarrow> (Inl err, s2)
                                   | (Inr channelInfo, s2) \<Rightarrow>
                                       (Inr (case channelInfo of None \<Rightarrow> [] | Some ci \<Rightarrow> handle ci), s2))
                             else (Inr [], s1)) of
                         (Inl err, s2) \<Rightarrow> (Inl err, s2)
                       | (Inr channelHandle, s2) \<Rightarrow>
                           (let blocked = isChannelBlocked (Some videoInfo)
                                            (map Some normalizedEntries) channelHandle
                            in (Inr \<lparr>allowed = \<not> blocked,
                                     reason = (if blocked then Channel_blocked else Channel_allowed),
                                     response_channel = Some videoInfo\<rparr>, s2))))))"

section \<open>Notions used to state the properties\<close>

text \<open>The styles \<open>lockScroll\<close> writes, the snapshot it takes of a root element, and the
  styles \<open>unlockScroll\<close> writes back from a snapshot.\<close>

definition locked_styles :: "doc_el \<Rightarrow> doc_el" where
  "locked_styles d =
     d\<lparr>overflow := ''hidden'', overscrollBehavior := ''none'',
       body := map_option (\<lambda>b. b\<lparr>body_overflow := ''hidden'', body_touchAction := ''none''\<rparr>) (body d)\<rparr>"

definition snapshot_of :: "doc_el \<Rightarrow> scroll_lock_state" where
  "snapshot_of d =
     \<lparr>count = 0, prevDocOverflow = overflow d, prevDocOverscroll = overscrollBehavior d,
      prevBodyOverflow = (case body d of None \<Rightarrow> [] | Some b \<Rightarrow> body_overflow b),
      prevBodyTouchAction = (case body d of None \<Rightarrow> [] | Some b \<Rightarrow> body_touchAction b)\<rparr>"

definition restored_styles :: "scroll_lock_state \<Rightarrow> doc_el \<Rightarrow> doc_el" where
  "restored_styles st d =
     d\<lparr>overflow := prevDocOverflow st, overscrollBehavior := prevDocOverscroll st,
       body := map_option (\<lambda>b. b\<lparr>body_overflow := prevBodyOverflow st,
                                    body_touchAction := prevBodyTouchAction st\<rparr>) (body d)\<rparr>"

text \<open>A document with styles of its own, used to run the lock on.\<close>

definition example_doc :: doc_el where
  "example_doc =
     \<lparr>overflow = ''auto'', overscrollBehavior = [],
      body = Some \<lparr>body_overflow = ''scroll'', body_touchAction = ''pan-y''\<rparr>,
      maxprodSiteOverlay = False\<rparr>"

definition example_page :: page where
  "example_page =
     \<lparr>documentElement = Some example_doc, listeners = False, lockState = None, siteOverlay = None\<rparr>"

text \<open>An entry the loop of \<open>isChannelBlocked\<close> steps over: null, or with an empty value.\<close>

definition skipped_entry :: "channel_entry option \<Rightarrow> bool" where
  "skipped_entry entry = (case entry of None \<Rightarrow> True | Some e \<Rightarrow> entry_value e = [])"

definition handle_entry :: "channel_entry option \<Rightarrow> bool" where
  "handle_entry entry = (case entry of None \<Rightarrow> False | Some e \<Rightarrow> entry_type e = Handle_type)"

text \<open>One entry decides the loop of \<open>isChannelBlocked\<close>: it has a value, and the value
  is the identifier, the title or the handle the loop compares it with.\<close>

definition entry_hits :: "string \<Rightarrow> string \<Rightarrow> string \<Rightarrow> channel_entry \<Rightarrow> bool" where
  "entry_hits cid title nh e =
     (entry_value e \<noteq> [] \<and>
        (entry_type e = Id_type \<and> entry_value e = cid
         \<or> entry_type e = Name_type \<and> entry_value e = title
         \<or> entry_type e = Handle_type \<and> entry_value e = nh))"

text \<open>\<open>channelHandle.replace(/^@/, '')\<close>.\<close>

definition strip_at :: "string \<Rightarrow> string" where
  "strip_at h = (if startsWith h ''@'' then drop 1 h else h)"

text \<open>Equality of two strings up to case.\<close>

definition ci_eq :: "string \<Rightarrow> string \<Rightarrow> bool" where
  "ci_eq a b = (toLowerCase a = toLowerCase b)"

text \<open>The match of one entry as the specification words it: the entry's value equals,
  up to case, the owner's channel id (an id entry), the owner's title (a name entry) or
  the resolved handle without its leading \<open>@\<close> (a handle entry).\<close>

definition entry_matches_as_specified :: "video_info \<Rightarrow> string \<Rightarrow> channel_entry \<Rightarrow> bool" where
  "entry_matches_as_specified info channelHandle e =
     (entry_type e = Id_type \<and> ci_eq (entry_value e) (channelId info)
      \<or> entry_type e = Name_type \<and> ci_eq (entry_value e) (channelTitle info)
      \<or> entry_type e = Handle_type \<and> ci_eq (entry_value e) (strip_at channelHandle))"

definition example_owner :: video_info where
  "example_owner = \<lparr>channelId = ''UCabc'', channelTitle = ''Example''\<rparr>"

text \<open>The subreddit a path names for \<open>determineBlockReason\<close>: what \<open>extractSubreddit\<close>
  finds in the lower-cased path, when that is a non-empty string.\<close>

definition named_subreddit :: "string \<Rightarrow> string option" where
  "named_subreddit pathname =
     (case extractSubreddit (toLowerCase pathname) of
        None \<Rightarrow> None
      | Some sub \<Rightarrow> if sub = [] then None else Some sub)"

text \<open>The paths \<open>isHomepage\<close> accepts besides the empty one, and those of them that name
  no subreddit.\<close>

definition homepage_paths :: "string list" where
  "homepage_paths = [''/'', ''/hot'', ''/best'', ''/new'', ''/top'']"

definition aggregate_feed_paths :: "string list" where
  "aggregate_feed_paths = [''/'', ''/hot'', ''/best'', ''/new'', ''/top'', ''/r/all'', ''/r/popular'']"

definition example_config :: config where
  "example_config =
     \<lparr>blockedHosts = [''x.com'', ''x.com''], allowedSubreddits = [''foo''], blockReddit = True,
      extensionEnabled = True, blockedYouTubeChannels = []\<rparr>"

definition reddit_script_of :: "config \<Rightarrow> reddit_script" where
  "reddit_script_of c = rebuildSets \<lparr>state = c, allowedSet = []\<rparr>"

text \<open>The distinct normalised hosts and subreddits of a configuration, as sets: each
  entry trimmed and lower-cased (a subreddit also without its \<open>r/\<close> prefix and trailing
  slashes), the empty results left out.\<close>

definition normalized_hosts :: "string list \<Rightarrow> string set" where
  "normalized_hosts hosts = {toLowerCase (trim h) | h. h \<in> set hosts} - {[]}"

text \<open>The normal form of a community name in the specification's words: trimmed, a
  leading \<open>/r/\<close> or \<open>r/\<close> (in either case) removed, trailing slashes removed,
  lower-cased. It is written by cases on the characters, not with the operations of
  \<open>normalizeSubreddit\<close>.\<close>

fun drop_r_prefix :: "string \<Rightarrow> string" where
  "drop_r_prefix (a # b # c # t) =
     (if a = CHR ''/'' \<and> (b = CHR ''r'' \<or> b = CHR ''R'') \<and> c = CHR ''/'' then t
      else if (a = CHR ''r'' \<or> a = CHR ''R'') \<and> b = CHR ''/'' then c # t
      else a # b # c # t)"
| "drop_r_prefix [a, b] = (if (a = CHR ''r'' \<or> a = CHR ''R'') \<and> b = CHR ''/'' then [] else [a, b])"
| "drop_r_prefix s = s"

fun drop_trailing_slashes :: "string \<Rightarrow> string" where
  "drop_trailing_slashes [] = []"
| "drop_trailing_slashes (c # cs) =
     (if list_all (\<lambda>x. x = CHR ''/'') (c # cs) then [] else c # drop_trailing_slashes cs)"

definition subreddit_name :: "string \<Rightarrow> string" where
  "subreddit_name s = toLowerCase (drop_trailing_slashes (drop_r_prefix (trim s)))"

definition normalized_subreddits :: "string list \<Rightarrow> string set" where
  "normalized_subreddits subs = {subreddit_name s | s. s \<in> set subs} - {[]}"

text \<open>The normal form of a host name for matching, in the specification's words:
  trimmed, lower-cased, a leading \<open>www.\<close> removed.\<close>

fun drop_www :: "string \<Rightarrow> string" where
  "drop_www (a # b # c # d # t) =
     (if a = CHR ''w'' \<and> b = CHR ''w'' \<and> c = CHR ''w'' \<and> d = CHR ''.'' then t
      else a # b # c # d # t)"
| "drop_www s = s"

definition host_normal_form :: "string \<Rightarrow> string" where
  "host_normal_form h = drop_www (toLowerCase (trim h))"

text \<open>A configuration whose entries are not in normal form.\<close>

definition messy_config :: config where
  "messy_config =
     \<lparr>blockedHosts = ['' X.com'', ''x.COM '', ''   ''],
      allowedSubreddits = [''/r/Foo/'', ''r/foo'', '' FOO// ''], blockReddit = True,
      extensionEnabled = True, blockedYouTubeChannels = []\<rparr>"

text \<open>A tab the sweep of \<open>enforceOpenTabs\<close> acts on: it has an id, its address passes the
  http(s) test and parses to a non-empty host name.\<close>

definition http_document :: "tab \<Rightarrow> bool" where
  "http_document t =
     (tab_id t \<noteq> None \<and> tab_id t \<noteq> Some 0
      \<and> (case tab_url t of None \<Rightarrow> False | Some url \<Rightarrow> url \<noteq> [] \<and> is_http_url url)
      \<and> (case url_hostname t of None \<Rightarrow> False | Some h \<Rightarrow> h \<noteq> []))"

text \<open>A browser with one stale rule installed and one open tab that shows the site
  overlay and holds the lock.\<close>

definition example_tab :: tab where
  "example_tab =
     \<lparr>tab_id = Some 7, tab_url = Some ''https://x.com/home'', url_hostname = Some ''x.com'',
      scriptable = True,
      tab_page = \<lparr>documentElement = Some (locked_styles example_doc), listeners = True,
                  lockState = Some ((snapshot_of example_doc)\<lparr>count := 1\<rparr>),
                  siteOverlay = Some ''x.com is blocked by Maxprod.''\<rparr>\<rparr>"

definition example_browser :: browser where
  "example_browser =
     \<lparr>dynamicRules = [blockedHostRule ''old.example'' 0], openTabs = [example_tab]\<rparr>"

text \<open>The video id \<open>handleYouTubeVideoCheck\<close> reads from a message:
  \<open>(message?.videoId || '').trim()\<close>.\<close>

definition videoId_of :: "string option \<Rightarrow> string" where
  "videoId_of message_videoId = trim (case message_videoId of None \<Rightarrow> [] | Some v \<Rightarrow> v)"

definition has_handle_entry :: "channel_entry list \<Rightarrow> bool" where
  "has_handle_entry entries = list_ex (\<lambda>entry. entry_type entry = Handle_type) entries"

text \<open>An environment with no credential and an API that answers with a video of the
  channel \<open>UCabcdefghijklmnopqrstuv\<close>, and a background state with empty caches.\<close>

definition example_env :: lookup_env where
  "example_env =
     \<lparr>env_key = None, video_now = 1000, video_reply = HttpOk (Some (''UCabcdefghijklmnopqrstuv'', ''Example'')),
      channel_now = 1001, channel_reply = HttpOk (Some ''@Example''),
      pathname_of = (\<lambda>raw. None)\<rparr>"

definition empty_bg :: bg_state where
  "empty_bg = \<lparr>youtubeVideoCache = [], youtubeChannelCache = [], fetches = []\<rparr>"

text \<open>The token \<open>normalizeYouTubeChannelEntry\<close> classifies: the trimmed input, rewritten
  when it is a link.\<close>

definition channel_token :: "(string \<Rightarrow> string option) \<Rightarrow> string \<Rightarrow> string" where
  "channel_token parse v =
     (if is_http_link (trim v) then rewrite_link parse (trim v) else trim v)"

text \<open>A path segment: not empty, no slash in it; and what may follow a segment in a
  path: nothing, or a slash and more.\<close>

definition segment :: "string \<Rightarrow> bool" where
  "segment seg = (seg \<noteq> [] \<and> CHR ''/'' \<notin> set seg)"

definition path_rest :: "string \<Rightarrow> bool" where
  "path_rest rest = (rest = [] \<or> startsWith rest ''/'')"

definition example_link :: string where
  "example_link = '' https://www.youtube.com/channel/UCabcdefghijklmnopqrstuv/videos ''"

definition example_parser :: "string \<Rightarrow> string option" where
  "example_parser raw =
     (if raw = trim example_link then Some ''/channel/UCabcdefghijklmnopqrstuv/videos'' else None)"

text \<open>The entries \<open>pruneCache\<close> evicts: the first ones in the order of their timestamps,
  as many as the cache is over its maximum.\<close>

definition evicted :: "nat \<Rightarrow> 'a cache_entry js_map \<Rightarrow> 'a cache_entry js_map" where
  "evicted MAX_CACHE_ENTRIES cache =
     take (length cache - MAX_CACHE_ENTRIES) (sort_key (\<lambda>(k, e). timestamp e) cache)"

text \<open>A cache as a \<open>Map\<close> holds it: one entry per key. Within its bound: at most so many
  entries. Not from the future: no timestamp after the given time.\<close>

definition keys_distinct :: "'a js_map \<Rightarrow> bool" where
  "keys_distinct m = distinct (map fst m)"

definition caches_bounded :: "bg_state \<Rightarrow> bool" where
  "caches_bounded s =
     (keys_distinct (youtubeVideoCache s) \<and> length (youtubeVideoCache s) \<le> 100
      \<and> keys_distinct (youtubeChannelCache s) \<and> length (youtubeChannelCache s) \<le> 200)"

definition stamped_by :: "int \<Rightarrow> 'a cache_entry js_map \<Rightarrow> bool" where
  "stamped_by now cache = list_all (\<lambda>(k, e). timestamp e \<le> now) cache"

text \<open>A lookup finds nothing it can use: no entry, or one whose age has reached the TTL.\<close>

definition absent_or_expired :: "int \<Rightarrow> int \<Rightarrow> 'a cache_entry option \<Rightarrow> bool" where
  "absent_or_expired ttl now cached =
     (case cached of None \<Rightarrow> True | Some c \<Rightarrow> ttl \<le> now - timestamp c)"

text \<open>A video cache at its bound of 100 entries, all stamped 5000, and a background state
  holding it.\<close>

definition future_cache :: "video_info cache_entry js_map" where
  "future_cache =
     map (\<lambda>i. (replicate (Suc i) CHR ''k'', \<lparr>timestamp = 5000, data = None\<rparr>)) [0..<100]"

definition future_bg :: bg_state where
  "future_bg = \<lparr>youtubeVideoCache = future_cache, youtubeChannelCache = [], fetches = []\<rparr>"

text \<open>Three entries, the second the oldest.\<close>

definition example_cache :: "video_info cache_entry js_map" where
  "example_cache =
     [(''a'', \<lparr>timestamp = 30, data = None\<rparr>),
      (''b'', \<lparr>timestamp = 10, data = None\<rparr>),
      (''c'', \<lparr>timestamp = 20, data = None\<rparr>)]"

section \<open>Verified properties\<close>

subsection \<open>Strings and sets\<close>


lemma endsWith_iff: "endsWith s t \<longleftrightarrow> (\<exists>p. s = p @ t)"
proof
  assume "endsWith s t"
  then have "s = take (length s - length t) s @ t"
    by (metis append_take_drop_id endsWith_def)
  then show "\<exists>p. s = p @ t" ..
next
  assume "\<exists>p. s = p @ t"
  then show "endsWith s t" by (auto simp: endsWith_def)
qed

lemma startsWith_iff: "startsWith s t \<longleftrightarrow> (\<exists>q. s = t @ q)"
  unfolding startsWith_def
  by (metis append_eq_conv_conj append_take_drop_id)

lemma isHostBlocked_loop_iff:
  "isHostBlocked_loop n bs \<longleftrightarrow> (\<exists>b \<in> set bs. n = b \<or> endsWith n (CHR ''.'' # b))"
  by (induction bs) auto

lemma set_fold_new_Set:
  "set (fold (\<lambda>x acc. if x \<in> set acc then acc else acc @ [x]) xs acc0) = set acc0 \<union> set xs"
  by (induction xs arbitrary: acc0) auto

lemma set_new_Set: "set (new_Set xs) = set xs"
  by (simp add: new_Set_def set_fold_new_Set)

lemma distinct_fold_new_Set:
  "distinct acc0 \<Longrightarrow> distinct (fold (\<lambda>x acc. if x \<in> set acc then acc else acc @ [x]) xs acc0)"
  by (induction xs arbitrary: acc0) auto

lemma normalizeHostForMatching_Nil: "normalizeHostForMatching [] = []"
  by (simp add: normalizeHostForMatching_def)

lemma normalizeHostForMatching_normal_form:
  "normalizeHostForMatching h = host_normal_form h"
proof (cases "h = []")
  case True
  then show ?thesis
    by (simp add: normalizeHostForMatching_def host_normal_form_def trim_def toLowerCase_def)
next
  case False
  have "(if startsWith s ''www.'' then drop 4 s else s) = drop_www s" for s
    by (induction s rule: drop_www.induct) (auto simp: startsWith_def)
  with False show ?thesis
    by (simp add: normalizeHostForMatching_def host_normal_form_def Let_def)
qed

lemma set_blockedHostSet:
  "set (blockedHostSet hosts) = {host_normal_form h | h. h \<in> set hosts} - {[]}"
proof -
  have "host_normal_form [] = []"
    by (simp add: host_normal_form_def trim_def toLowerCase_def)
  then show ?thesis
    by (auto simp: blockedHostSet_def set_new_Set normalizeHostForMatching_normal_form)
qed

text \<open>
  Claim C3. \<open>normalizeHostForMatching\<close> computes the normal form of a host name: trimmed,
  lower-cased, a leading \<open>www.\<close> removed. The blocked set that \<open>enforceOpenTabs\<close> builds
  holds the normal forms of the configured hosts, the empty ones left out. For every host
  name \<open>x\<close> and every list of configured hosts, \<open>isHostBlocked\<close> is true exactly when the
  normal form of \<open>x\<close> equals the non-empty normal form of a configured host or ends with a
  dot followed by it; on the empty set it is false.
\<close>

theorem isHostBlocked_suffix_match:
  "(isHostBlocked x (blockedHostSet hosts) \<longleftrightarrow>
      (\<exists>b \<in> set hosts. host_normal_form b \<noteq> [] \<and>
          (host_normal_form x = host_normal_form b
           \<or> (\<exists>p. host_normal_form x = p @ ''.'' @ host_normal_form b))))
   \<and> normalizeHostForMatching x = host_normal_form x
   \<and> set (blockedHostSet hosts) = {host_normal_form h | h. h \<in> set hosts} - {[]}
   \<and> isHostBlocked x [] = False
   \<and> isHostBlocked x (blockedHostSet []) = False"
proof -
  let ?n = "host_normal_form x"
  let ?S = "blockedHostSet hosts"
  have nonempty: "\<forall>b \<in> set ?S. b \<noteq> []"
    by (simp add: set_blockedHostSet)
  have loop: "isHostBlocked x ?S \<longleftrightarrow> (\<exists>b \<in> set ?S. ?n = b \<or> (\<exists>p. ?n = p @ ''.'' @ b))"
  proof (cases "x = [] \<or> ?S = [] \<or> ?n = []")
    case True
    have "host_normal_form [] = []"
      by (simp add: host_normal_form_def trim_def toLowerCase_def)
    with True have n: "?n = [] \<or> ?S = []" by auto
    have "\<not> isHostBlocked x ?S"
      using True by (auto simp: isHostBlocked_def Let_def normalizeHostForMatching_normal_form)
    moreover have "\<not> (\<exists>b \<in> set ?S. ?n = b \<or> (\<exists>p. ?n = p @ ''.'' @ b))"
      using n nonempty by auto
    ultimately show ?thesis by blast
  next
    case False
    then have "isHostBlocked x ?S = isHostBlocked_loop ?n ?S"
      by (simp add: isHostBlocked_def Let_def normalizeHostForMatching_normal_form)
    then show ?thesis by (simp add: isHostBlocked_loop_iff endsWith_iff)
  qed
  have "(\<exists>b \<in> set ?S. ?n = b \<or> (\<exists>p. ?n = p @ ''.'' @ b)) \<longleftrightarrow>
      (\<exists>b \<in> set hosts. host_normal_form b \<noteq> [] \<and>
          (?n = host_normal_form b \<or> (\<exists>p. ?n = p @ ''.'' @ host_normal_form b)))"
    unfolding set_blockedHostSet by blast
  with loop have main: "isHostBlocked x ?S \<longleftrightarrow>
      (\<exists>b \<in> set hosts. host_normal_form b \<noteq> [] \<and>
          (?n = host_normal_form b \<or> (\<exists>p. ?n = p @ ''.'' @ host_normal_form b)))"
    by (simp only:)
  have e1: "isHostBlocked x [] = False" by (simp add: isHostBlocked_def)
  have "blockedHostSet [] = []" by (simp add: blockedHostSet_def new_Set_def)
  then have e2: "isHostBlocked x (blockedHostSet []) = False" by (simp add: isHostBlocked_def)
  show ?thesis
    by (intro conjI main normalizeHostForMatching_normal_form set_blockedHostSet e1 e2)
qed

lemma isHostBlocked_examples:
  "isHostBlocked ''sub.a.com'' (blockedHostSet [''a.com''])"
  "\<not> isHostBlocked ''notaa.com'' (blockedHostSet [''a.com''])"
  "isHostBlocked ''WWW.a.com'' (blockedHostSet ['' www.A.com ''])"
  by code_simp+

theorem isHostBlocked_suffix_match_witness:
  "isHostBlocked '' WWW.Sub.A.com '' (blockedHostSet [''www.A.COM ''])
   \<and> \<not> isHostBlocked ''notaa.com'' (blockedHostSet ['' WWW.a.com''])
   \<and> normalizeHostForMatching '' WWW.Sub.A.com '' = ''sub.a.com''
   \<and> set (blockedHostSet [''www.A.COM '', ''   '']) = {''a.com''}
   \<and> \<not> isHostBlocked ''a.com'' []"
proof -
  have n: "host_normal_form '' WWW.Sub.A.com '' = ''sub.a.com''"
    "host_normal_form ''www.A.COM '' = ''a.com''"
    "host_normal_form '' WWW.a.com'' = ''a.com''"
    "host_normal_form ''notaa.com'' = ''notaa.com''"
    "host_normal_form ''   '' = []"
    by code_simp+
  have "''sub.a.com'' = ''sub'' @ ''.'' @ ''a.com''" by simp
  then have ex: "\<exists>p. ''sub.a.com'' = p @ ''.'' @ ''a.com''" by blast
  have "\<not> endsWith ''notaa.com'' (''.'' @ ''a.com'')" by code_simp
  then have nex: "\<not> (\<exists>p. ''notaa.com'' = p @ ''.'' @ ''a.com'')"
    unfolding endsWith_iff .
  note t1 = isHostBlocked_suffix_match[of "'' WWW.Sub.A.com ''" "[''www.A.COM '']"]
  note t2 = isHostBlocked_suffix_match[of "''notaa.com''" "['' WWW.a.com'']"]
  note t3 = isHostBlocked_suffix_match[of "''a.com''" "[''www.A.COM '', ''   '']"]
  have 1: "isHostBlocked '' WWW.Sub.A.com '' (blockedHostSet [''www.A.COM ''])"
    using t1[THEN conjunct1] ex by (simp add: n)
  have 2: "\<not> isHostBlocked ''notaa.com'' (blockedHostSet ['' WWW.a.com''])"
    using t2[THEN conjunct1] nex by (simp add: n)
  have 3: "normalizeHostForMatching '' WWW.Sub.A.com '' = ''sub.a.com''"
    using t1[THEN conjunct2, THEN conjunct1] by (simp add: n)
  have "{host_normal_form h | h. h \<in> set [''www.A.COM '', ''   '']}
          = {host_normal_form ''www.A.COM '', host_normal_form ''   ''}"
    by auto
  moreover have "{''a.com'', []} - {[]} = {''a.com''}" by auto
  ultimately have "{host_normal_form h | h. h \<in> set [''www.A.COM '', ''   '']} - {[]} = {''a.com''}"
    by (simp only: n)
  then have 4: "set (blockedHostSet [''www.A.COM '', ''   '']) = {''a.com''}"
    using t3[THEN conjunct2, THEN conjunct2, THEN conjunct1] by (simp only:)
  have 5: "\<not> isHostBlocked ''a.com'' []"
    using t3[THEN conjunct2, THEN conjunct2, THEN conjunct2, THEN conjunct1] by simp
  show ?thesis by (intro conjI 1 2 3 4 5)
qed


subsection \<open>Scroll lock\<close>

lemma lockScroll_first:
  assumes "documentElement p = Some d" "lockState p = None"
  shows "lockScroll p = p\<lparr>documentElement := Some (locked_styles d), listeners := True,
                          lockState := Some ((snapshot_of d)\<lparr>count := 1\<rparr>)\<rparr>"
  using assms
  by (cases "body d") (simp_all add: lockScroll_def ensureScrollLockState_def fresh_lock_state_def
      locked_styles_def snapshot_of_def Let_def)

lemma lockScroll_held:
  assumes "documentElement p = Some d" "lockState p = Some st" "count st \<noteq> 0"
  shows "lockScroll p = p\<lparr>lockState := Some (st\<lparr>count := count st + 1\<rparr>)\<rparr>"
  using assms by (simp add: lockScroll_def ensureScrollLockState_def)

lemma unlockScroll_absent: "lockState p = None \<Longrightarrow> unlockScroll p = p"
  by (simp add: unlockScroll_def)

lemma unlockScroll_held:
  assumes "lockState p = Some st" "1 < count st"
  shows "unlockScroll p = p\<lparr>lockState := Some (st\<lparr>count := count st - 1\<rparr>)\<rparr>"
  using assms by (simp add: unlockScroll_def Let_def max_def)

lemma unlockScroll_last:
  assumes "lockState p = Some st" "count st \<le> 1"
  shows "unlockScroll p = p\<lparr>documentElement := map_option (restored_styles st) (documentElement p),
                            listeners := False, lockState := None\<rparr>"
  using assms by (cases "documentElement p") (simp_all add: unlockScroll_def Let_def max_def restored_styles_def)

lemma restored_locked: "restored_styles ((snapshot_of d)\<lparr>count := n\<rparr>) (locked_styles d) = d"
  by (cases "body d") (simp_all add: restored_styles_def snapshot_of_def locked_styles_def)

lemma lock_twice_unlock_twice:
  assumes "documentElement p = Some d" "lockState p = None"
  shows "lockScroll (lockScroll p) = p\<lparr>documentElement := Some (locked_styles d), listeners := True,
                          lockState := Some ((snapshot_of d)\<lparr>count := 2\<rparr>)\<rparr>"
   and "unlockScroll (lockScroll (lockScroll p)) = lockScroll p"
   and "unlockScroll (unlockScroll (lockScroll (lockScroll p))) = p\<lparr>listeners := False\<rparr>"
proof -
  let ?p1 = "lockScroll p"
  have p1: "?p1 = p\<lparr>documentElement := Some (locked_styles d), listeners := True,
                          lockState := Some ((snapshot_of d)\<lparr>count := 1\<rparr>)\<rparr>"
    using assms by (rule lockScroll_first)
  have p2: "lockScroll ?p1 = ?p1\<lparr>lockState := Some ((snapshot_of d)\<lparr>count := 2\<rparr>)\<rparr>"
    by (subst lockScroll_held[where d="locked_styles d" and st="(snapshot_of d)\<lparr>count := 1\<rparr>"])
       (simp_all add: p1)
  show a: "lockScroll (lockScroll p) = p\<lparr>documentElement := Some (locked_styles d), listeners := True,
                          lockState := Some ((snapshot_of d)\<lparr>count := 2\<rparr>)\<rparr>"
    by (simp add: p2) (simp add: p1)
  show b: "unlockScroll (lockScroll (lockScroll p)) = lockScroll p"
    unfolding a
    by (subst unlockScroll_held[where st="(snapshot_of d)\<lparr>count := 2\<rparr>"])
       (simp_all add: p1)
  have "unlockScroll (unlockScroll (lockScroll (lockScroll p))) = unlockScroll (lockScroll p)"
    by (simp only: b)
  also have "\<dots> = unlockScroll (p\<lparr>documentElement := Some (locked_styles d), listeners := True,
                          lockState := Some ((snapshot_of d)\<lparr>count := 1\<rparr>)\<rparr>)"
    by (simp only: p1)
  also have "\<dots> = p\<lparr>listeners := False\<rparr>"
    by (subst unlockScroll_last[where st="(snapshot_of d)\<lparr>count := 1\<rparr>"])
       (simp_all add: restored_locked assms)
  finally show "unlockScroll (unlockScroll (lockScroll (lockScroll p))) = p\<lparr>listeners := False\<rparr>" .
qed

text \<open>
  Claim C9. The lock is reference-counted. Releasing without a lock object is a no-op. On
  a document with a root element and no lock object, acquiring snapshots the styles,
  writes the locked ones, attaches the listeners and sets the count to 1; a second
  acquire only raises the count; one release then gives back the state after the first
  acquire (styles still locked), and the second release restores the document. In
  general an acquire at a count other than 0 changes only the count, a release at a
  count above 1 changes only the count, and a release at count 1 writes the snapshot
  back, detaches the listeners and drops the lock object.
\<close>

theorem scroll_lock_reference_counted:
  "(lockState p0 = None \<longrightarrow> unlockScroll p0 = p0)
   \<and> (documentElement p = Some d \<and> lockState p = None \<longrightarrow>
        lockScroll p = p\<lparr>documentElement := Some (locked_styles d), listeners := True,
                          lockState := Some ((snapshot_of d)\<lparr>count := 1\<rparr>)\<rparr>
        \<and> lockScroll (lockScroll p) =
            p\<lparr>documentElement := Some (locked_styles d), listeners := True,
              lockState := Some ((snapshot_of d)\<lparr>count := 2\<rparr>)\<rparr>
        \<and> unlockScroll (lockScroll (lockScroll p)) = lockScroll p
        \<and> unlockScroll (unlockScroll (lockScroll (lockScroll p))) = p\<lparr>listeners := False\<rparr>)
   \<and> (documentElement q = Some e \<and> lockState q = Some st \<and> count st \<noteq> 0 \<longrightarrow>
        lockScroll q = q\<lparr>lockState := Some (st\<lparr>count := count st + 1\<rparr>)\<rparr>)
   \<and> (lockState q' = Some st' \<and> 1 < count st' \<longrightarrow>
        unlockScroll q' = q'\<lparr>lockState := Some (st'\<lparr>count := count st' - 1\<rparr>)\<rparr>)
   \<and> (lockState r = Some st'' \<and> count st'' \<le> 1 \<longrightarrow>
        unlockScroll r =
          r\<lparr>documentElement := map_option (restored_styles st'') (documentElement r),
            listeners := False, lockState := None\<rparr>)"
  using unlockScroll_absent[of p0] lockScroll_first[of p d] lock_twice_unlock_twice[of p d]
    lockScroll_held[of q e st] unlockScroll_held[of q' st'] unlockScroll_last[of r st'']
  by blast

theorem scroll_lock_reference_counted_witness:
  "lockState example_page = None
   \<and> unlockScroll example_page = example_page
   \<and> documentElement example_page = Some example_doc
   \<and> documentElement (lockScroll (lockScroll example_page)) = Some (locked_styles example_doc)
   \<and> documentElement (unlockScroll (lockScroll (lockScroll example_page)))
       = Some (locked_styles example_doc)
   \<and> map_option count (lockState (unlockScroll (lockScroll (lockScroll example_page)))) = Some 1
   \<and> unlockScroll (unlockScroll (lockScroll (lockScroll example_page))) = example_page
   \<and> locked_styles example_doc \<noteq> example_doc"
proof -
  let ?p = example_page
  have a: "lockState ?p = None" "documentElement ?p = Some example_doc"
    and c: "?p\<lparr>listeners := False\<rparr> = ?p"
    by (simp_all add: example_page_def)
  have b: "locked_styles example_doc \<noteq> example_doc"
    by (simp add: locked_styles_def example_doc_def)
  note t = scroll_lock_reference_counted[of ?p ?p example_doc]
  from t a have e0: "unlockScroll ?p = ?p" by blast
  from t a have e1: "lockScroll ?p = ?p\<lparr>documentElement := Some (locked_styles example_doc),
      listeners := True, lockState := Some ((snapshot_of example_doc)\<lparr>count := 1\<rparr>)\<rparr>"
    by blast
  from t a have e2: "lockScroll (lockScroll ?p) =
      ?p\<lparr>documentElement := Some (locked_styles example_doc),
      listeners := True, lockState := Some ((snapshot_of example_doc)\<lparr>count := 2\<rparr>)\<rparr>"
    by blast
  from t a have e3: "unlockScroll (lockScroll (lockScroll ?p)) = lockScroll ?p" by blast
  from t a have e4: "unlockScroll (unlockScroll (lockScroll (lockScroll ?p))) = ?p\<lparr>listeners := False\<rparr>"
    by blast
  have f2: "documentElement (lockScroll (lockScroll ?p)) = Some (locked_styles example_doc)"
    by (simp only: e2) simp
  have f3: "documentElement (unlockScroll (lockScroll (lockScroll ?p))) = Some (locked_styles example_doc)"
    by (simp only: e3) (simp add: e1)
  have g3: "map_option count (lockState (unlockScroll (lockScroll (lockScroll ?p)))) = Some 1"
    by (simp only: e3) (simp add: e1)
  have f4: "unlockScroll (unlockScroll (lockScroll (lockScroll ?p))) = ?p"
    by (simp only: e4 c)
  show ?thesis
    using a e0 f2 f3 g3 f4 b by blast
qed

subsection \<open>Channel blocklist decision\<close>

lemma lower_char_idem: "lower_char (lower_char c) = lower_char c"
  unfolding lower_char_def Let_def by auto

lemma toLowerCase_idem: "toLowerCase (toLowerCase s) = toLowerCase s"
  by (simp add: toLowerCase_def lower_char_idem)

lemma toLowerCase_Nil_iff: "toLowerCase s = [] \<longleftrightarrow> s = []"
  by (simp add: toLowerCase_def)

lemma isChannelBlocked_loop_Some:
  "isChannelBlocked_loop cid title nh (Some e # rest) \<longleftrightarrow>
     entry_hits cid title nh e \<or> isChannelBlocked_loop cid title nh rest"
  unfolding entry_hits_def by (cases "entry_value e = []") (simp, simp, blast)

lemma isChannelBlocked_loop_hits:
  "isChannelBlocked_loop cid title nh entries \<longleftrightarrow>
     (\<exists>e. Some e \<in> set entries \<and> entry_hits cid title nh e)"
proof (induction entries)
  case Nil
  show ?case by simp
next
  case (Cons entry rest)
  show ?case
  proof (cases entry)
    case None
    with Cons show ?thesis by simp
  next
    case (Some e)
    have "isChannelBlocked_loop cid title nh (entry # rest) \<longleftrightarrow>
       entry_hits cid title nh e \<or> (\<exists>e'. Some e' \<in> set rest \<and> entry_hits cid title nh e')"
      unfolding Some isChannelBlocked_loop_Some Cons.IH ..
    also have "\<dots> \<longleftrightarrow> (\<exists>e'. Some e' \<in> set (entry # rest) \<and> entry_hits cid title nh e')"
      unfolding Some by auto
    finally show ?thesis .
  qed
qed

lemma isChannelBlocked_loop_iff:
  "isChannelBlocked_loop cid title nh entries \<longleftrightarrow>
     (\<exists>e. Some e \<in> set entries \<and> entry_value e \<noteq> [] \<and>
        (entry_type e = Id_type \<and> entry_value e = cid
         \<or> entry_type e = Name_type \<and> entry_value e = title
         \<or> entry_type e = Handle_type \<and> entry_value e = nh))"
  unfolding isChannelBlocked_loop_hits entry_hits_def ..

lemma isChannelBlocked_loop_skip:
  "isChannelBlocked_loop cid title nh (filter (\<lambda>e. \<not> skipped_entry e) entries)
     = isChannelBlocked_loop cid title nh entries"
  by (induction entries) (auto simp: skipped_entry_def split: option.splits)

lemma isChannelBlocked_loop_no_handle:
  "isChannelBlocked_loop cid title [] (filter (\<lambda>e. \<not> handle_entry e) entries)
     = isChannelBlocked_loop cid title [] entries"
  by (induction entries) (auto simp: handle_entry_def split: option.splits)

text \<open>
  Claim C10. With an empty resolved handle the handle entries have no effect on the
  result: the decision is the one taken on the list without them, so a list of handle
  entries alone never blocks, whatever their values. And for every owner, handle and
  list, the entries that are null or have an empty value have no effect either.
\<close>

theorem isChannelBlocked_skips_empty:
  "isChannelBlocked info entries [] = isChannelBlocked info (filter (\<lambda>e. \<not> handle_entry e) entries) []
   \<and> isChannelBlocked info (filter handle_entry entries) [] = False
   \<and> isChannelBlocked info entries channelHandle
       = isChannelBlocked info (filter (\<lambda>e. \<not> skipped_entry e) entries) channelHandle
   \<and> isChannelBlocked info (filter skipped_entry entries) channelHandle = False"
proof -
  have a: "isChannelBlocked_loop cid title [] (filter handle_entry entries) = False" for cid title
    using isChannelBlocked_loop_no_handle[of cid title "filter handle_entry entries"]
    by simp
  have b: "isChannelBlocked_loop cid title nh (filter skipped_entry entries) = False" for cid title nh
    using isChannelBlocked_loop_skip[of cid title nh "filter skipped_entry entries"]
    by simp
  show ?thesis
    by (cases info)
       (simp_all add: isChannelBlocked_def isChannelBlocked_loop_skip isChannelBlocked_loop_no_handle
          a b startsWith_def toLowerCase_def)
qed

theorem isChannelBlocked_skips_empty_witness:
  "isChannelBlocked (Some \<lparr>channelId = ''UCabc'', channelTitle = []\<rparr>)
      [Some \<lparr>entry_type = Handle_type, entry_value = []\<rparr>, None,
       Some \<lparr>entry_type = Name_type, entry_value = []\<rparr>] [] = False"
proof -
  let ?es = "[Some \<lparr>entry_type = Handle_type, entry_value = []\<rparr>, None,
       Some \<lparr>entry_type = Name_type, entry_value = []\<rparr>]"
  have f: "filter skipped_entry ?es = ?es" by (simp add: skipped_entry_def)
  note t = isChannelBlocked_skips_empty[of "Some \<lparr>channelId = ''UCabc'', channelTitle = []\<rparr>" ?es "[]"]
  have "isChannelBlocked (Some \<lparr>channelId = ''UCabc'', channelTitle = []\<rparr>)
          (filter skipped_entry ?es) [] = False"
    by (rule t[THEN conjunct2, THEN conjunct2, THEN conjunct2])
  then show ?thesis by (simp only: f)
qed

text \<open>
  Claim C4, as the specification words it, fails on a handle entry with an empty value
  (the entry the normaliser stores for the input \<open>@\<close>) when the channel has no handle:
  the two are equal, and the code does not block.
\<close>

theorem isChannelBlocked_empty_handle_counterexample:
  "entry_matches_as_specified example_owner [] \<lparr>entry_type = Handle_type, entry_value = []\<rparr>
   \<and> \<not> isChannelBlocked (Some example_owner) [Some \<lparr>entry_type = Handle_type, entry_value = []\<rparr>] []"
  by (simp add: entry_matches_as_specified_def ci_eq_def strip_at_def startsWith_def
      isChannelBlocked_def toLowerCase_def)

text \<open>
  Claim C4, amended. For a resolved owner, \<open>isChannelBlocked\<close> is true exactly when some
  entry that is not null and whose value is not empty matches: an id entry whose value is
  the lower-cased channel id, a name entry whose value is the lower-cased title (the whole
  title, no substring), or a handle entry whose value is the lower-cased resolved handle
  without its leading \<open>@\<close>. For an unresolved owner it is false. When the values are
  lower-cased, as the normaliser stores them, this is the match of the specification up
  to case, restricted to the entries with a value.
\<close>

theorem isChannelBlocked_iff:
  "(isChannelBlocked (Some info) entries channelHandle \<longleftrightarrow>
      (\<exists>e. Some e \<in> set entries \<and> entry_value e \<noteq> [] \<and>
         (entry_type e = Id_type \<and> entry_value e = toLowerCase (channelId info)
          \<or> entry_type e = Name_type \<and> entry_value e = toLowerCase (channelTitle info)
          \<or> entry_type e = Handle_type \<and> entry_value e = toLowerCase (strip_at channelHandle))))
   \<and> isChannelBlocked None entries channelHandle = False
   \<and> ((\<forall>e. Some e \<in> set entries \<longrightarrow> toLowerCase (entry_value e) = entry_value e) \<longrightarrow>
        (isChannelBlocked (Some info) entries channelHandle \<longleftrightarrow>
           (\<exists>e. Some e \<in> set entries \<and> entry_value e \<noteq> []
                \<and> entry_matches_as_specified info channelHandle e)))"
proof -
  have main: "isChannelBlocked (Some info) entries channelHandle \<longleftrightarrow>
      (\<exists>e. Some e \<in> set entries \<and> entry_value e \<noteq> [] \<and>
         (entry_type e = Id_type \<and> entry_value e = toLowerCase (channelId info)
          \<or> entry_type e = Name_type \<and> entry_value e = toLowerCase (channelTitle info)
          \<or> entry_type e = Handle_type \<and> entry_value e = toLowerCase (strip_at channelHandle)))"
    by (simp add: isChannelBlocked_def isChannelBlocked_loop_iff strip_at_def)
  have none: "isChannelBlocked None entries channelHandle = False"
    by (simp add: isChannelBlocked_def)
  have ci: "isChannelBlocked (Some info) entries channelHandle \<longleftrightarrow>
           (\<exists>e. Some e \<in> set entries \<and> entry_value e \<noteq> []
                \<and> entry_matches_as_specified info channelHandle e)"
    if low: "\<forall>e. Some e \<in> set entries \<longrightarrow> toLowerCase (entry_value e) = entry_value e"
  proof -
    have "entry_value e = toLowerCase x \<longleftrightarrow> ci_eq (entry_value e) x"
      if "Some e \<in> set entries" for e x
      using low that by (simp add: ci_eq_def)
    then show ?thesis
      unfolding main entry_matches_as_specified_def by blast
  qed
  from main none ci show ?thesis by blast
qed

theorem isChannelBlocked_iff_witness:
  "isChannelBlocked (Some example_owner) [Some \<lparr>entry_type = Name_type, entry_value = ''example''\<rparr>] []
   \<and> \<not> isChannelBlocked (Some example_owner) [Some \<lparr>entry_type = Name_type, entry_value = ''exam''\<rparr>] []
   \<and> \<not> isChannelBlocked None [Some \<lparr>entry_type = Name_type, entry_value = ''example''\<rparr>] []"
proof -
  have t: "toLowerCase ''Example'' = ''example''" "toLowerCase ''example'' = ''example''"
    "toLowerCase ''exam'' = ''exam''"
    by code_simp+
  have low1: "\<forall>e. Some e \<in> set [Some \<lparr>entry_type = Name_type, entry_value = ''example''\<rparr>]
      \<longrightarrow> toLowerCase (entry_value e) = entry_value e"
    by (simp add: t)
  have low2: "\<forall>e. Some e \<in> set [Some \<lparr>entry_type = Name_type, entry_value = ''exam''\<rparr>]
      \<longrightarrow> toLowerCase (entry_value e) = entry_value e"
    by (simp add: t)
  show ?thesis
    using isChannelBlocked_iff[of example_owner "[Some \<lparr>entry_type = Name_type, entry_value = ''example''\<rparr>]" "[]"]
      isChannelBlocked_iff[of example_owner "[Some \<lparr>entry_type = Name_type, entry_value = ''exam''\<rparr>]" "[]"]
      low1 low2
    by (simp add: entry_matches_as_specified_def ci_eq_def example_owner_def t)
qed

subsection \<open>Community-site decision\<close>

lemma determineBlockReason_off:
  "\<not> blockReddit (state rs) \<Longrightarrow> determineBlockReason rs pathname search = None"
  by (simp add: determineBlockReason_def)

lemma determineBlockReason_named:
  assumes "blockReddit (state rs)" "named_subreddit pathname = Some sub"
  shows "determineBlockReason rs pathname search
           = (if sub \<in> set (allowedSet rs) then None else Some (Subreddit sub))"
proof -
  from assms(2) have "extractSubreddit (toLowerCase pathname) = Some sub" "sub \<noteq> []"
    by (auto simp: named_subreddit_def split: option.splits if_splits)
  with assms(1) show ?thesis
    by (simp add: determineBlockReason_def truthy_def Let_def)
qed

lemma determineBlockReason_unnamed:
  assumes "blockReddit (state rs)" "named_subreddit pathname = None"
  shows "determineBlockReason rs pathname search
           = (if isHomepage (toLowerCase pathname) search then Some Homepage else Some Global)"
proof -
  from assms(2) have "\<not> truthy (extractSubreddit (toLowerCase pathname))"
    by (auto simp: named_subreddit_def truthy_def split: option.splits if_splits)
  with assms(1) show ?thesis
    by (simp add: determineBlockReason_def Let_def)
qed

lemma isHomepage_iff:
  "isHomepage p search \<longleftrightarrow> p = [] \<or> p \<in> set aggregate_feed_paths"
  by (auto simp: isHomepage_def aggregate_feed_paths_def)

lemma named_subreddit_root: "named_subreddit ''/'' = None"
  by (simp add: named_subreddit_def extractSubreddit_def toLowerCase_def lower_char_def startsWith_def)

lemma aggregate_subreddit_paths:
  "named_subreddit ''/r/all'' = Some ''all''" "named_subreddit ''/r/popular'' = Some ''popular''"
  by code_simp+

lemma named_subreddit_homepage_paths:
  assumes "toLowerCase pathname \<in> set homepage_paths"
  shows "named_subreddit pathname = None"
proof -
  have "extractSubreddit p = None" if "p \<in> set homepage_paths" for p
    using that by (auto simp: homepage_paths_def extractSubreddit_def startsWith_def)
  with assms show ?thesis by (simp add: named_subreddit_def)
qed

lemma named_subreddit_aggregate:
  assumes "named_subreddit pathname = None"
  shows "toLowerCase pathname \<in> set aggregate_feed_paths
           \<longleftrightarrow> toLowerCase pathname \<in> set homepage_paths"
proof -
  have e: "extractSubreddit ''/r/all'' = Some ''all''"
    "extractSubreddit ''/r/popular'' = Some ''popular''"
    by code_simp+
  have "toLowerCase pathname \<noteq> ''/r/all''" "toLowerCase pathname \<noteq> ''/r/popular''"
    using assms e by (auto simp: named_subreddit_def)
  then show ?thesis by (auto simp: aggregate_feed_paths_def homepage_paths_def)
qed

lemma allowedSet_rebuildSets:
  "set (allowedSet (rebuildSets rs))
     = {normalizeSubreddit s | s. s \<in> set (allowedSubreddits (state rs))} - {[]}"
proof -
  have "set (filter_Boolean (map normalizeSubreddit_cs xs)) = {normalizeSubreddit s | s. s \<in> set xs} - {[]}"
    for xs
  proof (induction xs)
    case Nil
    show ?case by (simp add: filter_Boolean_def List.map_filter_simps)
  next
    case (Cons x xs)
    show ?case
    proof (cases "x = []")
      case True
      with Cons show ?thesis
        by (auto simp: filter_Boolean_def List.map_filter_simps normalizeSubreddit_cs_def truthy_def
            normalizeSubreddit_def trim_def toLowerCase_def strip_r_prefix_def
            strip_trailing_slashes_def startsWith_def)
    next
      case False
      with Cons show ?thesis
        by (auto simp: filter_Boolean_def List.map_filter_simps normalizeSubreddit_cs_def truthy_def)
    qed
  qed
  then show ?thesis by (simp add: rebuildSets_def set_new_Set)
qed

text \<open>
  The decision of \<open>checkLocation\<close> on the community site with the master switch and the
  global block switch on: clear when the path names an allow-listed subreddit; showing
  that subreddit when the path names one that is not allow-listed; showing the homepage
  on the empty path and on \<open>/\<close>, \<open>/hot\<close>, \<open>/best\<close>, \<open>/new\<close>, \<open>/top\<close> in any case of the letters;
  showing the global block on any other path that names no subreddit. With the master
  switch or the block switch off it decides clear.
\<close>

lemma checkLocation_cases:
  "(extensionEnabled (state rs) \<and> blockReddit (state rs)
      \<and> endsWith (toLowerCase hostname) ''reddit.com'' \<longrightarrow>
      (named_subreddit pathname = Some sub \<and> sub \<in> set (allowedSet rs) \<longrightarrow>
         checkLocation rs hostname pathname search = Clear)
    \<and> (named_subreddit pathname = Some sub \<and> sub \<notin> set (allowedSet rs) \<longrightarrow>
         checkLocation rs hostname pathname search = Showing (Subreddit sub))
    \<and> (pathname = [] \<or> toLowerCase pathname \<in> set homepage_paths \<longrightarrow>
         checkLocation rs hostname pathname search = Showing Homepage)
    \<and> (named_subreddit pathname = None
         \<and> pathname \<noteq> [] \<and> toLowerCase pathname \<notin> set homepage_paths \<longrightarrow>
         checkLocation rs hostname pathname search = Showing Global))
   \<and> (\<not> extensionEnabled (state rs) \<or> \<not> blockReddit (state rs) \<longrightarrow>
         checkLocation rs hostname pathname search = Clear)"
proof (intro conjI impI)
  assume "\<not> extensionEnabled (state rs) \<or> \<not> blockReddit (state rs)"
  then show "checkLocation rs hostname pathname search = Clear"
    by (auto simp: checkLocation_def determineBlockReason_off)
next
  assume on: "extensionEnabled (state rs) \<and> blockReddit (state rs)
      \<and> endsWith (toLowerCase hostname) ''reddit.com''"
  {
    assume "named_subreddit pathname = Some sub \<and> sub \<in> set (allowedSet rs)"
    then have ne: "pathname \<noteq> []" and *: "named_subreddit pathname = Some sub" "sub \<in> set (allowedSet rs)"
      by (auto simp: named_subreddit_def extractSubreddit_def startsWith_def toLowerCase_def)
    show "checkLocation rs hostname pathname search = Clear"
      using on ne * by (simp add: checkLocation_def determineBlockReason_named)
  }
  {
    assume "named_subreddit pathname = Some sub \<and> sub \<notin> set (allowedSet rs)"
    then have ne: "pathname \<noteq> []" and *: "named_subreddit pathname = Some sub" "sub \<notin> set (allowedSet rs)"
      by (auto simp: named_subreddit_def extractSubreddit_def startsWith_def toLowerCase_def)
    show "checkLocation rs hostname pathname search = Showing (Subreddit sub)"
      using on ne * by (simp add: checkLocation_def determineBlockReason_named)
  }
  {
    assume a: "pathname = [] \<or> toLowerCase pathname \<in> set homepage_paths"
    show "checkLocation rs hostname pathname search = Showing Homepage"
    proof (cases "pathname = []")
      case True
      have "isHomepage (toLowerCase ''/'') search"
        by (simp add: isHomepage_def toLowerCase_def lower_char_def)
      then show ?thesis
        using on True by (simp add: checkLocation_def determineBlockReason_unnamed named_subreddit_root)
    next
      case False
      with a have h: "toLowerCase pathname \<in> set homepage_paths" by simp
      then have n: "named_subreddit pathname = None" by (rule named_subreddit_homepage_paths)
      from h have "isHomepage (toLowerCase pathname) search"
        by (simp add: isHomepage_iff named_subreddit_aggregate[OF n])
      with False n on show ?thesis
        by (simp add: checkLocation_def determineBlockReason_unnamed)
    qed
  }
  {
    assume a: "named_subreddit pathname = None
         \<and> pathname \<noteq> [] \<and> toLowerCase pathname \<notin> set homepage_paths"
    then have "\<not> isHomepage (toLowerCase pathname) search"
      by (simp add: isHomepage_iff toLowerCase_Nil_iff named_subreddit_aggregate)
    with a on show "checkLocation rs hostname pathname search = Showing Global"
      by (simp add: checkLocation_def determineBlockReason_unnamed)
  }
qed

lemma checkLocation_examples:
  "checkLocation (reddit_script_of (example_config\<lparr>allowedSubreddits := []\<rparr>))
      ''www.reddit.com'' ''/r/funny'' [] = Showing (Subreddit ''funny'')"
  "checkLocation (reddit_script_of (example_config\<lparr>allowedSubreddits := [''/r/Funny/'']\<rparr>))
      ''www.reddit.com'' ''/r/funny'' [] = Clear"
  "checkLocation (reddit_script_of example_config) ''www.reddit.com'' ''/best'' [] = Showing Homepage"
  "checkLocation (reddit_script_of example_config) ''www.reddit.com'' ''/user/me'' [] = Showing Global"
  "checkLocation (reddit_script_of (example_config\<lparr>blockReddit := False\<rparr>))
      ''www.reddit.com'' ''/r/funny'' [] = Clear"
  "checkLocation (reddit_script_of (example_config\<lparr>extensionEnabled := False\<rparr>))
      ''www.reddit.com'' ''/r/funny'' [] = Clear"
  by code_simp+


subsection \<open>Rule compilation\<close>

lemma indexOf_ge: "- 1 \<le> indexOf xs x"
  by (induction xs) (auto simp: Let_def)

lemma indexOf_neg_iff: "indexOf xs x < 0 \<longleftrightarrow> x \<notin> set xs"
  using indexOf_ge[of _ x] by (induction xs) (auto simp: Let_def)

lemma indexOf_lt_length: "indexOf xs x < int (length xs)"
  by (induction xs) (auto simp: Let_def)

lemma indexOf_notin: "x \<notin> set xs \<Longrightarrow> indexOf xs x = - 1"
  by (induction xs) (auto simp: Let_def)

lemma indexOf_in: "x \<in> set xs \<Longrightarrow> 0 \<le> indexOf xs x"
  by (induction xs) (auto simp: Let_def)

lemma indexOf_append:
  "indexOf (pre @ suf) x =
     (if x \<in> set pre then indexOf pre x
      else if x \<in> set suf then int (length pre) + indexOf suf x else - 1)"
proof (induction pre)
  case Nil
  show ?case by (simp add: indexOf_notin)
next
  case (Cons a pre)
  show ?case
  proof (cases "a = x")
    case True
    then show ?thesis by simp
  next
    case False
    consider "x \<in> set pre" | "x \<notin> set pre" "x \<in> set suf" | "x \<notin> set pre" "x \<notin> set suf"
      by blast
    then show ?thesis
    proof cases
      case 1
      with False Cons indexOf_in[of x pre] show ?thesis by (simp add: Let_def)
    next
      case 2
      with False Cons indexOf_in[of x suf] show ?thesis by (simp add: Let_def)
    next
      case 3
      with False Cons show ?thesis by (simp add: Let_def)
    qed
  qed
qed

lemma indexOf_first_iff:
  "indexOf (pre @ v # suf) v = int (length pre) \<longleftrightarrow> v \<notin> set pre"
  using indexOf_lt_length[of pre v] by (simp add: indexOf_append)

lemma first_nonempty_gen:
  "distinct (map fst (filter (\<lambda>(v, index). v \<noteq> [] \<and> indexOf (pre @ suf) v = int index)
                       (zip suf [length pre..<length pre + length suf])))
   \<and> set (map fst (filter (\<lambda>(v, index). v \<noteq> [] \<and> indexOf (pre @ suf) v = int index)
                       (zip suf [length pre..<length pre + length suf])))
       = {v \<in> set suf. v \<noteq> [] \<and> v \<notin> set pre}"
proof (induction suf arbitrary: pre)
  case Nil
  show ?case by simp
next
  case (Cons v suf)
  have idx: "[length pre..<length pre + length (v # suf)]
               = length pre # [length (pre @ [v])..<length (pre @ [v]) + length suf]"
    by (subst upt_rec) simp
  have app: "pre @ v # suf = (pre @ [v]) @ suf" by simp
  note IH = Cons.IH[of "pre @ [v]"]
  show ?case
    unfolding idx zip_Cons_Cons filter.simps
    using IH unfolding app[symmetric]
    by (auto simp: indexOf_first_iff)
qed

lemma distinct_filter_first_nonempty: "distinct (filter_first_nonempty arr)"
  using first_nonempty_gen[of "[]" arr] by (simp add: filter_first_nonempty_def)

lemma set_filter_first_nonempty: "set (filter_first_nonempty arr) = set arr - {[]}"
  using first_nonempty_gen[of "[]" arr] by (auto simp: filter_first_nonempty_def)

lemma push_each_append: "push_each mk vs rules = rules @ push_each mk vs []"
  by (simp add: push_each_def)

lemma map_push_each:
  assumes "\<And>v index. f (mk v index) = g v"
  shows "map f (push_each mk vs []) = map g vs"
proof -
  have "map f (push_each mk vs []) = map (\<lambda>p. g (fst p)) (zip vs [0..<length vs])"
    by (simp add: push_each_def assms split_def)
  also have "\<dots> = map g (map fst (zip vs [0..<length vs]))"
    by (simp only: map_map comp_def)
  also have "map fst (zip vs [0..<length vs]) = vs"
    by (rule map_fst_zip) simp
  finally show ?thesis .
qed

lemma set_push_each_prop:
  assumes "\<And>v index. P (mk v index)"
  shows "\<forall>r \<in> set (push_each mk vs []). P r"
  using assms by (auto simp: push_each_def)

lemma one_rule_per_filter:
  assumes "distinct (map f rs)" "y \<in> f ` set rs"
  shows "length (filter (\<lambda>r. f r = y) rs) = 1"
proof -
  have "length (filter (\<lambda>r. f r = y) rs) = length (filter (\<lambda>z. z = y) (map f rs))"
    by (simp add: filter_map comp_def)
  also have "\<dots> = card ({z. z = y} \<inter> set (map f rs))"
    using assms(1) by (rule distinct_length_filter)
  also have "{z. z = y} \<inter> set (map f rs) = {y}" using assms(2) by auto
  finally show ?thesis by simp
qed

lemma host_rules_filters:
  "map urlFilter (appendBlockedHostRules [] hosts)
     = map (\<lambda>h. ''||'' @ h)
         (filter_first_nonempty (map (\<lambda>host. toLowerCase (trim host)) (filter (\<lambda>h. h \<noteq> []) hosts)))"
  unfolding appendBlockedHostRules_def
  by (rule map_push_each) (simp add: blockedHostRule_def)

lemma allow_rules_filters:
  "map urlFilter (appendAllowedSubredditRules [] subs)
     = map (\<lambda>s. ''||reddit.com/r/'' @ s)
         (filter_first_nonempty (map normalizeSubreddit (filter (\<lambda>s. s \<noteq> []) subs)))"
  unfolding appendAllowedSubredditRules_def
  by (rule map_push_each) (simp add: allowedSubredditRule_def)

lemma set_nonempty_results:
  assumes "f [] = []"
  shows "set (filter_first_nonempty (map f (filter (\<lambda>x. x \<noteq> []) xs))) = {f x | x. x \<in> set xs} - {[]}"
proof -
  have "f ` {x \<in> set xs. x \<noteq> []} - {[]} = {f x | x. x \<in> set xs} - {[]}"
    using assms by auto
  then show ?thesis by (simp add: set_filter_first_nonempty)
qed

lemma normalizeSubreddit_Nil: "normalizeSubreddit [] = []"
  by (simp add: normalizeSubreddit_def trim_def toLowerCase_def strip_r_prefix_def
      strip_trailing_slashes_def startsWith_def)

lemma set_normalized_hosts:
  "set (filter_first_nonempty (map (\<lambda>host. toLowerCase (trim host)) (filter (\<lambda>h. h \<noteq> []) hosts)))
     = normalized_hosts hosts"
  unfolding normalized_hosts_def
  by (rule set_nonempty_results) (simp add: trim_def toLowerCase_def)

lemma strip_r_prefix_spec: "strip_r_prefix s = drop_r_prefix s"
  by (induction s rule: drop_r_prefix.induct)
     (auto simp: strip_r_prefix_def startsWith_def Let_def)

lemma drop_trailing_slashes_all:
  "list_all (\<lambda>x. x = CHR ''/'') s \<Longrightarrow> drop_trailing_slashes s = []"
  by (cases s) simp_all

lemma strip_trailing_slashes_spec: "strip_trailing_slashes s = drop_trailing_slashes s"
proof (induction s)
  case Nil
  show ?case by (simp add: strip_trailing_slashes_def)
next
  case (Cons c cs)
  show ?case
  proof (cases "list_all (\<lambda>x. x = CHR ''/'') cs")
    case True
    then have "\<forall>x \<in> set (rev cs). x = CHR ''/''" by (simp add: list_all_iff)
    then have "strip_trailing_slashes (c # cs) = rev (dropWhile (\<lambda>x. x = CHR ''/'') [c])"
      by (simp add: strip_trailing_slashes_def dropWhile_append)
    with True show ?thesis by (simp add: drop_trailing_slashes_all)
  next
    case False
    then have "\<not> (\<forall>x \<in> set (rev cs). x = CHR ''/'')" by (simp add: list_all_iff)
    then have "strip_trailing_slashes (c # cs) = c # strip_trailing_slashes cs"
      by (simp add: strip_trailing_slashes_def dropWhile_append)
    with False Cons show ?thesis by simp
  qed
qed

lemma normalizeSubreddit_name: "normalizeSubreddit s = subreddit_name s"
  by (simp add: normalizeSubreddit_def subreddit_name_def strip_r_prefix_spec
      strip_trailing_slashes_spec)

lemma set_normalized_subreddits:
  "set (filter_first_nonempty (map normalizeSubreddit (filter (\<lambda>s. s \<noteq> []) subs)))
     = normalized_subreddits subs"
proof -
  have "set (filter_first_nonempty (map normalizeSubreddit (filter (\<lambda>s. s \<noteq> []) subs)))
          = {normalizeSubreddit s | s. s \<in> set subs} - {[]}"
    by (rule set_nonempty_results) (rule normalizeSubreddit_Nil)
  then show ?thesis
    by (simp add: normalized_subreddits_def normalizeSubreddit_name)
qed

lemma host_rules_distinct: "distinct (map urlFilter (appendBlockedHostRules [] hosts))"
  unfolding host_rules_filters
  by (simp add: distinct_map distinct_filter_first_nonempty inj_on_def)

lemma allow_rules_distinct: "distinct (map urlFilter (appendAllowedSubredditRules [] subs))"
  unfolding allow_rules_filters
  by (simp add: distinct_map distinct_filter_first_nonempty inj_on_def)

lemma host_rules_image:
  "urlFilter ` set (appendBlockedHostRules [] hosts) = (\<lambda>h. ''||'' @ h) ` normalized_hosts hosts"
proof -
  have "urlFilter ` set (appendBlockedHostRules [] hosts)
          = set (map urlFilter (appendBlockedHostRules [] hosts))" by simp
  also have "\<dots> = (\<lambda>h. ''||'' @ h) ` normalized_hosts hosts"
    unfolding host_rules_filters set_map set_normalized_hosts ..
  finally show ?thesis .
qed

lemma allow_rules_image:
  "urlFilter ` set (appendAllowedSubredditRules [] subs)
     = (\<lambda>s. ''||reddit.com/r/'' @ s) ` normalized_subreddits subs"
proof -
  have "urlFilter ` set (appendAllowedSubredditRules [] subs)
          = set (map urlFilter (appendAllowedSubredditRules [] subs))" by simp
  also have "\<dots> = (\<lambda>s. ''||reddit.com/r/'' @ s) ` normalized_subreddits subs"
    unfolding allow_rules_filters set_map set_normalized_subreddits ..
  finally show ?thesis .
qed

lemma host_rules_shape:
  "\<forall>r \<in> set (appendBlockedHostRules [] hosts).
     action r = Block \<and> priority r = RULE_PRIORITIES_BLOCK \<and> resourceTypes r = [MainFrame]"
  unfolding appendBlockedHostRules_def
  by (rule set_push_each_prop) (simp add: blockedHostRule_def)

lemma allow_rules_shape:
  "\<forall>r \<in> set (appendAllowedSubredditRules [] subs).
     action r = Allow \<and> priority r = RULE_PRIORITIES_ALLOW \<and> resourceTypes r = [MainFrame]"
  unfolding appendAllowedSubredditRules_def
  by (rule set_push_each_prop) (simp add: allowedSubredditRule_def)

lemma compiledRules_parts:
  "compiledRules c =
     appendBlockedHostRules [] (blockedHosts c)
     @ (if blockReddit c
        then createRedditBlockRule # appendAllowedSubredditRules [] (allowedSubreddits c)
        else [])"
  unfolding compiledRules_def Let_def appendAllowedSubredditRules_def
  by (subst push_each_append) simp

lemma updateDynamicRules_replace:
  "updateDynamicRules (map rule_id existing) addRules existing = addRules"
  by (simp add: updateDynamicRules_def)

lemma dynamicRules_updateAllRules:
  "dynamicRules (updateAllRules c b) = (if extensionEnabled c then compiledRules c else [])"
  by (cases "dynamicRules b") (simp_all add: updateAllRules_def Let_def updateDynamicRules_def)

text \<open>
  Claim C1. With the master switch on, the rules installed after \<open>updateAllRules\<close> are
  the compiled ones, whatever was installed before: first the host rules, then, when the
  social-site switch is on, the domain-wide rule followed by the allow rules. The host
  rules are block rules at priority BLOCK whose filters are distinct and are exactly
  \<open>||h\<close> for the distinct normalised hosts \<open>h\<close>, so each host has exactly one rule. The
  domain-wide rule blocks \<open>||reddit.com^\<close> at priority BLOCK. The allow rules are at
  priority ALLOW, their filters are distinct and are exactly \<open>||reddit.com/r/s\<close> for the
  distinct normalised allow-listed subreddits \<open>s\<close>. BLOCK is 1, ALLOW is 100. A host is
  normalised by trimming and lower-casing; a subreddit by trimming, removing a leading
  \<open>/r/\<close> or \<open>r/\<close> and trailing slashes, and lower-casing (\<open>subreddit_name\<close>).
\<close>

theorem updateAllRules_compiles:
  assumes "extensionEnabled c"
  shows "dynamicRules (updateAllRules c b) =
           appendBlockedHostRules [] (blockedHosts c)
           @ (if blockReddit c
              then createRedditBlockRule # appendAllowedSubredditRules [] (allowedSubreddits c)
              else [])
    \<and> distinct (map urlFilter (appendBlockedHostRules [] (blockedHosts c)))
    \<and> urlFilter ` set (appendBlockedHostRules [] (blockedHosts c))
        = (\<lambda>h. ''||'' @ h) ` normalized_hosts (blockedHosts c)
    \<and> (\<forall>h \<in> normalized_hosts (blockedHosts c).
          length (filter (\<lambda>r. urlFilter r = ''||'' @ h)
                    (appendBlockedHostRules [] (blockedHosts c))) = 1)
    \<and> (\<forall>r \<in> set (appendBlockedHostRules [] (blockedHosts c)).
          action r = Block \<and> priority r = RULE_PRIORITIES_BLOCK \<and> resourceTypes r = [MainFrame])
    \<and> action createRedditBlockRule = Block
    \<and> priority createRedditBlockRule = RULE_PRIORITIES_BLOCK
    \<and> urlFilter createRedditBlockRule = ''||reddit.com^''
    \<and> distinct (map urlFilter (appendAllowedSubredditRules [] (allowedSubreddits c)))
    \<and> urlFilter ` set (appendAllowedSubredditRules [] (allowedSubreddits c))
        = (\<lambda>s. ''||reddit.com/r/'' @ s) ` normalized_subreddits (allowedSubreddits c)
    \<and> (\<forall>s \<in> normalized_subreddits (allowedSubreddits c).
          length (filter (\<lambda>r. urlFilter r = ''||reddit.com/r/'' @ s)
                    (appendAllowedSubredditRules [] (allowedSubreddits c))) = 1)
    \<and> (\<forall>r \<in> set (appendAllowedSubredditRules [] (allowedSubreddits c)).
          action r = Allow \<and> priority r = RULE_PRIORITIES_ALLOW \<and> resourceTypes r = [MainFrame])
    \<and> RULE_PRIORITIES_BLOCK = 1 \<and> RULE_PRIORITIES_ALLOW = 100
    \<and> RULE_PRIORITIES_BLOCK < RULE_PRIORITIES_ALLOW"
proof -
  have installed: "dynamicRules (updateAllRules c b) =
           appendBlockedHostRules [] (blockedHosts c)
           @ (if blockReddit c
              then createRedditBlockRule # appendAllowedSubredditRules [] (allowedSubreddits c)
              else [])"
    using assms by (simp only: dynamicRules_updateAllRules compiledRules_parts if_True)
  have one_host: "\<forall>h \<in> normalized_hosts (blockedHosts c).
          length (filter (\<lambda>r. urlFilter r = ''||'' @ h)
                    (appendBlockedHostRules [] (blockedHosts c))) = 1"
  proof
    fix h assume "h \<in> normalized_hosts (blockedHosts c)"
    then have "''||'' @ h \<in> urlFilter ` set (appendBlockedHostRules [] (blockedHosts c))"
      unfolding host_rules_image by (rule imageI)
    with host_rules_distinct show "length (filter (\<lambda>r. urlFilter r = ''||'' @ h)
                    (appendBlockedHostRules [] (blockedHosts c))) = 1"
      by (rule one_rule_per_filter)
  qed
  have one_sub: "\<forall>s \<in> normalized_subreddits (allowedSubreddits c).
          length (filter (\<lambda>r. urlFilter r = ''||reddit.com/r/'' @ s)
                    (appendAllowedSubredditRules [] (allowedSubreddits c))) = 1"
  proof
    fix s assume "s \<in> normalized_subreddits (allowedSubreddits c)"
    then have "''||reddit.com/r/'' @ s
                 \<in> urlFilter ` set (appendAllowedSubredditRules [] (allowedSubreddits c))"
      unfolding allow_rules_image by (rule imageI)
    with allow_rules_distinct show "length (filter (\<lambda>r. urlFilter r = ''||reddit.com/r/'' @ s)
                    (appendAllowedSubredditRules [] (allowedSubreddits c))) = 1"
      by (rule one_rule_per_filter)
  qed
  have reddit: "action createRedditBlockRule = Block"
    "priority createRedditBlockRule = RULE_PRIORITIES_BLOCK"
    "urlFilter createRedditBlockRule = ''||reddit.com^''"
    by (simp_all add: createRedditBlockRule_def)
  have prio: "RULE_PRIORITIES_BLOCK = 1" "RULE_PRIORITIES_ALLOW = 100"
    "RULE_PRIORITIES_BLOCK < RULE_PRIORITIES_ALLOW"
    by (simp_all add: RULE_PRIORITIES_BLOCK_def RULE_PRIORITIES_ALLOW_def)
  show ?thesis
    by (intro conjI installed host_rules_distinct host_rules_image one_host host_rules_shape
        reddit allow_rules_distinct allow_rules_image one_sub allow_rules_shape prio)
qed

theorem updateAllRules_compiles_witness:
  "extensionEnabled messy_config
   \<and> dynamicRules (updateAllRules messy_config example_browser) =
       [\<lparr>rule_id = 10000, priority = 1, action = Block, urlFilter = ''||x.com'',
         resourceTypes = [MainFrame]\<rparr>,
        \<lparr>rule_id = 20000, priority = 1, action = Block, urlFilter = ''||reddit.com^'',
         resourceTypes = [MainFrame]\<rparr>,
        \<lparr>rule_id = 30000, priority = 100, action = Allow, urlFilter = ''||reddit.com/r/foo'',
         resourceTypes = [MainFrame]\<rparr>]
   \<and> subreddit_name ''/r/Foo/'' = ''foo'' \<and> subreddit_name ''r/foo'' = ''foo''
   \<and> subreddit_name '' FOO// '' = ''foo''
   \<and> dynamicRules (updateAllRules example_config example_browser) =
       [\<lparr>rule_id = 10000, priority = 1, action = Block, urlFilter = ''||x.com'',
         resourceTypes = [MainFrame]\<rparr>,
        \<lparr>rule_id = 20000, priority = 1, action = Block, urlFilter = ''||reddit.com^'',
         resourceTypes = [MainFrame]\<rparr>,
        \<lparr>rule_id = 30000, priority = 100, action = Allow, urlFilter = ''||reddit.com/r/foo'',
         resourceTypes = [MainFrame]\<rparr>]"
proof -
  have on: "extensionEnabled messy_config" "blockReddit messy_config"
    "extensionEnabled example_config" "blockReddit example_config"
    by (simp_all add: messy_config_def example_config_def)
  have norm: "toLowerCase (trim '' X.com'') = ''x.com''" "toLowerCase (trim ''x.COM '') = ''x.com''"
    "toLowerCase (trim ''   '') = []" "toLowerCase (trim ''x.com'') = ''x.com''"
    "normalizeSubreddit ''/r/Foo/'' = ''foo''" "normalizeSubreddit ''r/foo'' = ''foo''"
    "normalizeSubreddit '' FOO// '' = ''foo''" "normalizeSubreddit ''foo'' = ''foo''"
    by code_simp+
  have name: "subreddit_name ''/r/Foo/'' = ''foo''" "subreddit_name ''r/foo'' = ''foo''"
    "subreddit_name '' FOO// '' = ''foo''"
    by code_simp+
  have first: "filter_first_nonempty [''x.com'', ''x.com'', []] = [''x.com'']"
    "filter_first_nonempty [''foo'', ''foo'', ''foo''] = [''foo'']"
    "filter_first_nonempty [''x.com'', ''x.com''] = [''x.com'']"
    "filter_first_nonempty [''foo''] = [''foo'']"
    by code_simp+
  have hosts: "appendBlockedHostRules [] (blockedHosts messy_config) =
       [\<lparr>rule_id = 10000, priority = 1, action = Block, urlFilter = ''||x.com'',
         resourceTypes = [MainFrame]\<rparr>]"
    "appendBlockedHostRules [] (blockedHosts example_config) =
       [\<lparr>rule_id = 10000, priority = 1, action = Block, urlFilter = ''||x.com'',
         resourceTypes = [MainFrame]\<rparr>]"
    by (simp_all add: appendBlockedHostRules_def messy_config_def example_config_def norm first
        push_each_def blockedHostRule_def RULE_OFFSETS_BLOCKED_HOSTS_def RULE_PRIORITIES_BLOCK_def)
  have allow: "appendAllowedSubredditRules [] (allowedSubreddits messy_config) =
       [\<lparr>rule_id = 30000, priority = 100, action = Allow, urlFilter = ''||reddit.com/r/foo'',
         resourceTypes = [MainFrame]\<rparr>]"
    "appendAllowedSubredditRules [] (allowedSubreddits example_config) =
       [\<lparr>rule_id = 30000, priority = 100, action = Allow, urlFilter = ''||reddit.com/r/foo'',
         resourceTypes = [MainFrame]\<rparr>]"
    by (simp_all add: appendAllowedSubredditRules_def messy_config_def example_config_def norm first
        push_each_def allowedSubredditRule_def RULE_OFFSETS_ALLOWED_SUBREDDITS_def
        RULE_PRIORITIES_ALLOW_def)
  have reddit: "createRedditBlockRule =
        \<lparr>rule_id = 20000, priority = 1, action = Block, urlFilter = ''||reddit.com^'',
         resourceTypes = [MainFrame]\<rparr>"
    by (simp add: createRedditBlockRule_def RULE_OFFSETS_REDDIT_BLOCK_def RULE_PRIORITIES_BLOCK_def)
  from updateAllRules_compiles[OF on(1), of example_browser]
  have "dynamicRules (updateAllRules messy_config example_browser) =
           appendBlockedHostRules [] (blockedHosts messy_config)
           @ (if blockReddit messy_config
              then createRedditBlockRule # appendAllowedSubredditRules [] (allowedSubreddits messy_config)
              else [])"
    by (rule conjunct1)
  then have 1: "dynamicRules (updateAllRules messy_config example_browser) =
       [\<lparr>rule_id = 10000, priority = 1, action = Block, urlFilter = ''||x.com'',
         resourceTypes = [MainFrame]\<rparr>,
        \<lparr>rule_id = 20000, priority = 1, action = Block, urlFilter = ''||reddit.com^'',
         resourceTypes = [MainFrame]\<rparr>,
        \<lparr>rule_id = 30000, priority = 100, action = Allow, urlFilter = ''||reddit.com/r/foo'',
         resourceTypes = [MainFrame]\<rparr>]"
    using on by (simp only: hosts allow reddit if_True append.simps)
  from updateAllRules_compiles[OF on(3), of example_browser]
  have "dynamicRules (updateAllRules example_config example_browser) =
           appendBlockedHostRules [] (blockedHosts example_config)
           @ (if blockReddit example_config
              then createRedditBlockRule # appendAllowedSubredditRules [] (allowedSubreddits example_config)
              else [])"
    by (rule conjunct1)
  then have 2: "dynamicRules (updateAllRules example_config example_browser) =
       [\<lparr>rule_id = 10000, priority = 1, action = Block, urlFilter = ''||x.com'',
         resourceTypes = [MainFrame]\<rparr>,
        \<lparr>rule_id = 20000, priority = 1, action = Block, urlFilter = ''||reddit.com^'',
         resourceTypes = [MainFrame]\<rparr>,
        \<lparr>rule_id = 30000, priority = 100, action = Allow, urlFilter = ''||reddit.com/r/foo'',
         resourceTypes = [MainFrame]\<rparr>]"
    using on by (simp only: hosts allow reddit if_True append.simps)
  show ?thesis by (intro conjI on(1) 1 name 2)
qed

subsection \<open>Master switch off\<close>

lemma siteOverlay_unlockScroll: "siteOverlay (unlockScroll p) = siteOverlay p"
  by (simp add: unlockScroll_def Let_def split: option.splits)

lemma siteOverlay_removeSiteOverlay_func: "siteOverlay (removeSiteOverlay_func p) = None"
  by (simp add: removeSiteOverlay_func_def Let_def siteOverlay_unlockScroll)

lemma enforceTab_disabled:
  "enforceTab False blockedSet t = (if http_document t then removeSiteOverlay t else t)"
  by (auto simp: enforceTab_def http_document_def getHostnameFromUrl_def toLowerCase_def
      split: option.splits)

lemma http_document_removeSiteOverlay: "http_document (removeSiteOverlay t) = http_document t"
  by (simp add: http_document_def removeSiteOverlay_def executeScript_def)

lemma scriptable_removeSiteOverlay: "scriptable (removeSiteOverlay t) = scriptable t"
  by (simp add: removeSiteOverlay_def executeScript_def)

lemma removeSiteOverlay_clears:
  "scriptable t \<Longrightarrow> siteOverlay (tab_page (removeSiteOverlay t)) = None"
  by (simp add: removeSiteOverlay_def executeScript_def siteOverlay_removeSiteOverlay_func)

lemma openTabs_updateAllRules_disabled:
  "\<not> extensionEnabled c \<Longrightarrow>
     openTabs (updateAllRules c b)
       = map (\<lambda>t. if http_document t then removeSiteOverlay t else t) (openTabs b)"
  by (simp add: updateAllRules_def Let_def enforceOpenTabs_def enforceTab_disabled)

text \<open>
  Claim C2. With the master switch off, no rule is installed after \<open>updateAllRules\<close>,
  whatever was installed before, and the sweep runs \<open>removeSiteOverlay\<close> on every open
  http(s) document and leaves the other tabs alone; afterwards no http(s) document that
  admits scripts carries the site overlay.
\<close>

theorem updateAllRules_disabled:
  assumes "\<not> extensionEnabled c"
  shows "dynamicRules (updateAllRules c b) = []
    \<and> openTabs (updateAllRules c b)
        = map (\<lambda>t. if http_document t then removeSiteOverlay t else t) (openTabs b)
    \<and> (\<forall>t \<in> set (openTabs (updateAllRules c b)).
          http_document t \<and> scriptable t \<longrightarrow> siteOverlay (tab_page t) = None)"
proof -
  have rules: "dynamicRules (updateAllRules c b) = []"
    using assms by (simp add: dynamicRules_updateAllRules)
  have tabs: "openTabs (updateAllRules c b)
        = map (\<lambda>t. if http_document t then removeSiteOverlay t else t) (openTabs b)"
    using assms by (rule openTabs_updateAllRules_disabled)
  have clear: "\<forall>t \<in> set (openTabs (updateAllRules c b)).
          http_document t \<and> scriptable t \<longrightarrow> siteOverlay (tab_page t) = None"
  proof (intro ballI impI)
    fix t assume t: "t \<in> set (openTabs (updateAllRules c b))"
      and h: "http_document t \<and> scriptable t"
    from t obtain t0 where t0: "t0 \<in> set (openTabs b)"
      and eq: "t = (if http_document t0 then removeSiteOverlay t0 else t0)"
      unfolding tabs by auto
    show "siteOverlay (tab_page t) = None"
    proof (cases "http_document t0")
      case True
      with eq have e: "t = removeSiteOverlay t0" by simp
      with h have "scriptable t0" by (simp add: scriptable_removeSiteOverlay)
      then show ?thesis unfolding e by (rule removeSiteOverlay_clears)
    next
      case False
      with eq h show ?thesis by simp
    qed
  qed
  from rules tabs clear show ?thesis by blast
qed

theorem updateAllRules_disabled_witness:
  "\<not> extensionEnabled (example_config\<lparr>extensionEnabled := False\<rparr>)
   \<and> dynamicRules example_browser \<noteq> []
   \<and> map (\<lambda>t. siteOverlay (tab_page t)) (openTabs example_browser) = [Some ''x.com is blocked by Maxprod.'']
   \<and> dynamicRules (updateAllRules (example_config\<lparr>extensionEnabled := False\<rparr>) example_browser) = []
   \<and> map (\<lambda>t. siteOverlay (tab_page t))
        (openTabs (updateAllRules (example_config\<lparr>extensionEnabled := False\<rparr>) example_browser)) = [None]"
proof -
  let ?c = "example_config\<lparr>extensionEnabled := False\<rparr>"
  have off: "\<not> extensionEnabled ?c" by simp
  have before: "dynamicRules example_browser \<noteq> []"
    "map (\<lambda>t. siteOverlay (tab_page t)) (openTabs example_browser) = [Some ''x.com is blocked by Maxprod.'']"
    by (simp_all add: example_browser_def example_tab_def)
  have doc: "http_document example_tab" by code_simp
  have scr: "scriptable example_tab" by (simp add: example_tab_def)
  note t = updateAllRules_disabled[OF off, of example_browser]
  from t have rules: "dynamicRules (updateAllRules ?c example_browser) = []" by (rule conjunct1)
  from t have "openTabs (updateAllRules ?c example_browser)
        = map (\<lambda>t. if http_document t then removeSiteOverlay t else t) (openTabs example_browser)"
    by (rule conjunct2[THEN conjunct1])
  then have tabs: "openTabs (updateAllRules ?c example_browser) = [removeSiteOverlay example_tab]"
    using doc by (simp add: example_browser_def)
  have "siteOverlay (tab_page (removeSiteOverlay example_tab)) = None"
    using scr by (rule removeSiteOverlay_clears)
  with off before rules tabs show ?thesis by simp
qed

subsection \<open>Video check: short circuits\<close>

lemma fetchYouTubeVideoInfo_effects:
  "(fetches (snd (fetchYouTubeVideoInfo now reply videoId s)) = fetches s
      \<or> fetches (snd (fetchYouTubeVideoInfo now reply videoId s)) = fetches s @ [VideosCall videoId])
   \<and> youtubeChannelCache (snd (fetchYouTubeVideoInfo now reply videoId s)) = youtubeChannelCache s"
  by (cases reply)
     (simp_all add: fetchYouTubeVideoInfo_def Let_def split: option.splits)

lemma handleYouTubeVideoCheck_blank:
  "videoId_of m = [] \<Longrightarrow>
     handleYouTubeVideoCheck env stored m s = (Inr (early Invalid_video_id), s)"
  by (simp add: handleYouTubeVideoCheck_def videoId_of_def)

lemma handleYouTubeVideoCheck_disabled:
  "videoId_of m \<noteq> [] \<Longrightarrow> \<not> extensionEnabled stored \<Longrightarrow>
     handleYouTubeVideoCheck env stored m s = (Inr (early Extension_disabled), s)"
  by (simp add: handleYouTubeVideoCheck_def videoId_of_def)

lemma handleYouTubeVideoCheck_no_entries:
  "videoId_of m \<noteq> [] \<Longrightarrow> extensionEnabled stored \<Longrightarrow> normalizedEntries_of env stored = [] \<Longrightarrow>
     handleYouTubeVideoCheck env stored m s = (Inr (early No_blocked_channels), s)"
  by (simp add: handleYouTubeVideoCheck_def videoId_of_def)

lemma handleYouTubeVideoCheck_no_key:
  "videoId_of m \<noteq> [] \<Longrightarrow> extensionEnabled stored \<Longrightarrow> normalizedEntries_of env stored \<noteq> [] \<Longrightarrow>
     getYoutubeApiKeyFromEnv env = [] \<Longrightarrow>
     handleYouTubeVideoCheck env stored m s = (Inr (early Missing_api_key), s)"
  by (simp add: handleYouTubeVideoCheck_def videoId_of_def)

lemma handleYouTubeVideoCheck_no_handle:
  assumes "\<not> has_handle_entry (normalizedEntries_of env stored)"
  shows "(fetches (snd (handleYouTubeVideoCheck env stored m s)) = fetches s
          \<or> fetches (snd (handleYouTubeVideoCheck env stored m s)) = fetches s @ [VideosCall (videoId_of m)])
       \<and> youtubeChannelCache (snd (handleYouTubeVideoCheck env stored m s)) = youtubeChannelCache s"
proof -
  let ?f = "fetchYouTubeVideoInfo (video_now env) (video_reply env) (videoId_of m) s"
  obtain res s1 where f: "?f = (res, s1)" by (cases ?f)
  from fetchYouTubeVideoInfo_effects[of "video_now env" "video_reply env" "videoId_of m" s]
  have eff: "(fetches s1 = fetches s \<or> fetches s1 = fetches s @ [VideosCall (videoId_of m)])
       \<and> youtubeChannelCache s1 = youtubeChannelCache s"
    by (simp add: f)
  have "snd (handleYouTubeVideoCheck env stored m s) = s \<or> snd (handleYouTubeVideoCheck env stored m s) = s1"
    using assms f
    by (simp add: handleYouTubeVideoCheck_def Let_def has_handle_entry_def videoId_of_def
        split: sum.splits option.splits)
  with eff show ?thesis by auto
qed

text \<open>
  Claim C5. \<open>handleYouTubeVideoCheck\<close> answers \<open>allowed\<close> with the reason
  \<open>invalid-video-id\<close> for a blank video id; else \<open>extension-disabled\<close> with the master
  switch off; else \<open>no-blocked-channels\<close> when no entry survives normalisation; else
  \<open>missing-api-key\<close> without a credential. In each of these cases the background state
  is returned as it was, so no external call is issued. And when no normalised entry is
  a handle entry, at most the video lookup is called: the only call that can be added
  is the one for the video, and the channel cache is untouched.
\<close>

theorem handleYouTubeVideoCheck_short_circuits:
  "(videoId_of m = [] \<longrightarrow>
      handleYouTubeVideoCheck env stored m s = (Inr (early Invalid_video_id), s))
   \<and> (videoId_of m \<noteq> [] \<and> \<not> extensionEnabled stored \<longrightarrow>
      handleYouTubeVideoCheck env stored m s = (Inr (early Extension_disabled), s))
   \<and> (videoId_of m \<noteq> [] \<and> extensionEnabled stored \<and> normalizedEntries_of env stored = [] \<longrightarrow>
      handleYouTubeVideoCheck env stored m s = (Inr (early No_blocked_channels), s))
   \<and> (videoId_of m \<noteq> [] \<and> extensionEnabled stored \<and> normalizedEntries_of env stored \<noteq> []
        \<and> getYoutubeApiKeyFromEnv env = [] \<longrightarrow>
      handleYouTubeVideoCheck env stored m s = (Inr (early Missing_api_key), s))
   \<and> allowed (early r) \<and> reason (early r) = r
   \<and> (\<not> has_handle_entry (normalizedEntries_of env stored) \<longrightarrow>
        (fetches (snd (handleYouTubeVideoCheck env stored m s)) = fetches s
          \<or> fetches (snd (handleYouTubeVideoCheck env stored m s)) = fetches s @ [VideosCall (videoId_of m)])
        \<and> youtubeChannelCache (snd (handleYouTubeVideoCheck env stored m s)) = youtubeChannelCache s)"
  using handleYouTubeVideoCheck_blank[of m env stored s]
    handleYouTubeVideoCheck_disabled[of m stored env s]
    handleYouTubeVideoCheck_no_entries[of m stored env s]
    handleYouTubeVideoCheck_no_key[of m stored env s]
    handleYouTubeVideoCheck_no_handle[of env stored m s]
  by (simp add: early_def)

theorem handleYouTubeVideoCheck_short_circuits_witness:
  "handleYouTubeVideoCheck example_env example_config (Some ''  '') empty_bg
     = (Inr (early Invalid_video_id), empty_bg)
   \<and> handleYouTubeVideoCheck example_env (example_config\<lparr>extensionEnabled := False\<rparr>) (Some ''vid1'') empty_bg
     = (Inr (early Extension_disabled), empty_bg)
   \<and> handleYouTubeVideoCheck example_env example_config (Some ''vid1'') empty_bg
     = (Inr (early No_blocked_channels), empty_bg)
   \<and> handleYouTubeVideoCheck example_env (example_config\<lparr>blockedYouTubeChannels := [''Example'']\<rparr>)
        (Some ''vid1'') empty_bg
     = (Inr (early Missing_api_key), empty_bg)
   \<and> youtubeChannelCache (snd (handleYouTubeVideoCheck (example_env\<lparr>env_key := Some ''k''\<rparr>)
        (example_config\<lparr>blockedYouTubeChannels := [''Example'']\<rparr>) (Some ''vid1'') empty_bg)) = []"
proof -
  let ?c1 = "example_config\<lparr>blockedYouTubeChannels := [''Example'']\<rparr>"
  let ?e1 = "example_env\<lparr>env_key := Some ''k''\<rparr>"
  have blank: "videoId_of (Some ''  '') = []" by code_simp
  have vid: "videoId_of (Some ''vid1'') \<noteq> []" by code_simp
  have on: "extensionEnabled example_config" "extensionEnabled ?c1"
    by (simp_all add: example_config_def)
  have none: "normalizedEntries_of example_env example_config = []"
    by (simp add: normalizedEntries_of_def example_config_def List.map_filter_simps)
  have some: "normalizedEntries_of example_env ?c1 \<noteq> []" by code_simp
  have nokey: "getYoutubeApiKeyFromEnv example_env = []"
    by (simp add: getYoutubeApiKeyFromEnv_def example_env_def)
  have nohandle: "\<not> has_handle_entry (normalizedEntries_of ?e1 ?c1)" by code_simp
  have cache: "youtubeChannelCache empty_bg = []" by (simp add: empty_bg_def)
  have 1: "handleYouTubeVideoCheck example_env example_config (Some ''  '') empty_bg
     = (Inr (early Invalid_video_id), empty_bg)"
    using handleYouTubeVideoCheck_short_circuits[of "Some ''  ''" example_env example_config empty_bg]
      blank by blast
  have 2: "handleYouTubeVideoCheck example_env (example_config\<lparr>extensionEnabled := False\<rparr>)
      (Some ''vid1'') empty_bg = (Inr (early Extension_disabled), empty_bg)"
    using handleYouTubeVideoCheck_short_circuits[of "Some ''vid1''" example_env
        "example_config\<lparr>extensionEnabled := False\<rparr>" empty_bg] vid
    by simp
  have 3: "handleYouTubeVideoCheck example_env example_config (Some ''vid1'') empty_bg
     = (Inr (early No_blocked_channels), empty_bg)"
    using handleYouTubeVideoCheck_short_circuits[of "Some ''vid1''" example_env example_config empty_bg]
      vid on none by blast
  have 4: "handleYouTubeVideoCheck example_env ?c1 (Some ''vid1'') empty_bg
     = (Inr (early Missing_api_key), empty_bg)"
    using handleYouTubeVideoCheck_short_circuits[of "Some ''vid1''" example_env ?c1 empty_bg]
      vid on some nokey by blast
  have 5: "youtubeChannelCache (snd (handleYouTubeVideoCheck ?e1 ?c1 (Some ''vid1'') empty_bg)) = []"
    using handleYouTubeVideoCheck_short_circuits[of "Some ''vid1''" ?e1 ?c1 empty_bg]
      nohandle cache by simp
  from 1 2 3 4 5 show ?thesis by blast
qed

lemma handleYouTubeVideoCheck_examples:
  "fst (handleYouTubeVideoCheck (example_env\<lparr>env_key := Some ''k''\<rparr>)
          (example_config\<lparr>blockedYouTubeChannels := [''ucABCDEFGHIJKLMNOPQRSTUV'']\<rparr>)
          (Some ''vid1'') empty_bg)
     = Inr \<lparr>allowed = False, reason = Channel_blocked,
             response_channel = Some \<lparr>channelId = ''UCabcdefghijklmnopqrstuv'', channelTitle = ''Example''\<rparr>\<rparr>"
  "fst (handleYouTubeVideoCheck (example_env\<lparr>env_key := Some ''k''\<rparr>)
          (example_config\<lparr>blockedYouTubeChannels := [''exam'']\<rparr>)
          (Some ''vid1'') empty_bg)
     = Inr \<lparr>allowed = True, reason = Channel_allowed,
             response_channel = Some \<lparr>channelId = ''UCabcdefghijklmnopqrstuv'', channelTitle = ''Example''\<rparr>\<rparr>"
  "fetches (snd (handleYouTubeVideoCheck (example_env\<lparr>env_key := Some ''k''\<rparr>)
          (example_config\<lparr>blockedYouTubeChannels := [''@example'']\<rparr>)
          (Some ''vid1'') empty_bg))
     = [VideosCall ''vid1'', ChannelsCall ''UCabcdefghijklmnopqrstuv'']"
  "fst (handleYouTubeVideoCheck (example_env\<lparr>env_key := Some ''k''\<rparr>)
          (example_config\<lparr>blockedYouTubeChannels := [''@example'']\<rparr>)
          (Some ''vid1'') empty_bg)
     = Inr \<lparr>allowed = False, reason = Channel_blocked,
             response_channel = Some \<lparr>channelId = ''UCabcdefghijklmnopqrstuv'', channelTitle = ''Example''\<rparr>\<rparr>"
  by code_simp+

subsection \<open>Channel entry normalisation\<close>

lemma split_slash_plain: "CHR ''/'' \<notin> set seg \<Longrightarrow> split_slash seg = [seg]"
  by (induction seg) auto

lemma split_slash_segment:
  "CHR ''/'' \<notin> set seg \<Longrightarrow> split_slash (seg @ CHR ''/'' # rest) = seg # split_slash rest"
  by (induction seg) auto

lemma path_segments_slash: "path_segments (CHR ''/'' # p) = path_segments p"
  by (simp add: path_segments_def)

lemma path_segments_head:
  assumes "segment seg" "path_rest rest"
  shows "path_segments (seg @ rest) = seg # path_segments rest"
proof (cases rest)
  case Nil
  with assms show ?thesis
    by (simp add: path_segments_def segment_def split_slash_plain)
next
  case (Cons c cs)
  with assms(2) have c: "c = CHR ''/''" by (simp add: path_rest_def startsWith_def)
  have "path_segments (seg @ CHR ''/'' # cs) = seg # path_segments cs"
    using assms(1) by (simp add: path_segments_def segment_def split_slash_segment)
  then show ?thesis by (simp add: Cons c path_segments_slash)
qed

lemma rewrite_link_channel:
  assumes "parse raw = Some (''/channel/'' @ seg @ rest)" "segment seg" "path_rest rest"
  shows "rewrite_link parse raw = seg"
proof -
  have "path_segments (''/channel/'' @ seg @ rest) = ''channel'' # seg # path_segments rest"
  proof -
    have "path_segments (''/channel/'' @ seg @ rest) = path_segments (''channel'' @ (CHR ''/'' # seg @ rest))"
      by (simp add: path_segments_slash)
    also have "\<dots> = ''channel'' # path_segments (CHR ''/'' # seg @ rest)"
      by (rule path_segments_head) (simp_all add: segment_def path_rest_def startsWith_def)
    also have "path_segments (CHR ''/'' # seg @ rest) = seg # path_segments rest"
      unfolding path_segments_slash using assms(2,3) by (rule path_segments_head)
    finally show ?thesis .
  qed
  then show ?thesis
    using assms(1) by (simp add: rewrite_link_def startsWith_def)
qed

lemma rewrite_link_custom:
  assumes "parse raw = Some (''/c/'' @ seg @ rest)" "segment seg" "path_rest rest"
  shows "rewrite_link parse raw = seg"
proof -
  have "path_segments (''/c/'' @ seg @ rest) = ''c'' # seg # path_segments rest"
  proof -
    have "path_segments (''/c/'' @ seg @ rest) = path_segments (''c'' @ (CHR ''/'' # seg @ rest))"
      by (simp add: path_segments_slash)
    also have "\<dots> = ''c'' # path_segments (CHR ''/'' # seg @ rest)"
      by (rule path_segments_head) (simp_all add: segment_def path_rest_def startsWith_def)
    also have "path_segments (CHR ''/'' # seg @ rest) = seg # path_segments rest"
      unfolding path_segments_slash using assms(2,3) by (rule path_segments_head)
    finally show ?thesis .
  qed
  then show ?thesis
    using assms(1) by (simp add: rewrite_link_def startsWith_def)
qed

lemma rewrite_link_handle:
  assumes "parse raw = Some (''/@'' @ h @ rest)" "CHR ''/'' \<notin> set h" "path_rest rest"
  shows "rewrite_link parse raw = CHR ''@'' # h"
proof -
  have "path_segments (''/@'' @ h @ rest) = path_segments ((CHR ''@'' # h) @ rest)"
    by (simp add: path_segments_slash)
  also have "\<dots> = (CHR ''@'' # h) # path_segments rest"
    using assms(2,3) by (intro path_segments_head) (simp_all add: segment_def)
  finally show ?thesis
    using assms(1) by (simp add: rewrite_link_def startsWith_def)
qed

lemma of_char_lower_char:
  "(of_char (lower_char c) :: nat) =
     (if (65 \<le> (of_char c :: nat) \<and> (of_char c :: nat) \<le> 90)
         \<or> (192 \<le> (of_char c :: nat) \<and> (of_char c :: nat) \<le> 222 \<and> (of_char c :: nat) \<noteq> 215)
      then of_char c + 32 else of_char c)"
proof -
  have "(n + 32) mod 256 = n + 32" if "n \<le> 222" for n :: nat
    using that by simp
  then show ?thesis
    unfolding lower_char_def Let_def by (simp add: of_char_of)
qed

lemma char_eq_code: "c = d \<longleftrightarrow> (of_char c :: nat) = of_char d"
  by simp

lemma lower_char_eq_u: "lower_char a = CHR ''u'' \<longleftrightarrow> a = CHR ''u'' \<or> a = CHR ''U''"
proof -
  have "lower_char a = CHR ''u'' \<longleftrightarrow> (of_char (lower_char a) :: nat) = 117"
    by (subst char_eq_code) simp
  also have "\<dots> \<longleftrightarrow> (of_char a :: nat) = 117 \<or> (of_char a :: nat) = 85"
    unfolding of_char_lower_char by auto
  also have "\<dots> \<longleftrightarrow> a = CHR ''u'' \<or> a = CHR ''U''"
  proof -
    have "a = CHR ''u'' \<longleftrightarrow> (of_char a :: nat) = 117" by (subst char_eq_code) simp
    moreover have "a = CHR ''U'' \<longleftrightarrow> (of_char a :: nat) = 85" by (subst char_eq_code) simp
    ultimately show ?thesis by (simp only:)
  qed
  finally show ?thesis .
qed

lemma lower_char_eq_c: "lower_char a = CHR ''c'' \<longleftrightarrow> a = CHR ''c'' \<or> a = CHR ''C''"
proof -
  have "lower_char a = CHR ''c'' \<longleftrightarrow> (of_char (lower_char a) :: nat) = 99"
    by (subst char_eq_code) simp
  also have "\<dots> \<longleftrightarrow> (of_char a :: nat) = 99 \<or> (of_char a :: nat) = 67"
    unfolding of_char_lower_char by auto
  also have "\<dots> \<longleftrightarrow> a = CHR ''c'' \<or> a = CHR ''C''"
  proof -
    have "a = CHR ''c'' \<longleftrightarrow> (of_char a :: nat) = 99" by (subst char_eq_code) simp
    moreover have "a = CHR ''C'' \<longleftrightarrow> (of_char a :: nat) = 67" by (subst char_eq_code) simp
    ultimately show ?thesis by (simp only:)
  qed
  finally show ?thesis .
qed

lemma is_channel_id_iff:
  "is_channel_id raw \<longleftrightarrow>
     (\<exists>a b rest. raw = a # b # rest \<and> (a = CHR ''u'' \<or> a = CHR ''U'') \<and> (b = CHR ''c'' \<or> b = CHR ''C'')
        \<and> length rest = 22 \<and> (\<forall>ch \<in> set rest. is_id_char ch))"
proof
  assume a: "is_channel_id raw"
  then have len: "length raw = 24" by (simp add: is_channel_id_def)
  then obtain a b rest where raw: "raw = a # b # rest"
    by (cases raw; cases "tl raw") auto
  with a len show "\<exists>a b rest. raw = a # b # rest \<and> (a = CHR ''u'' \<or> a = CHR ''U'')
        \<and> (b = CHR ''c'' \<or> b = CHR ''C'') \<and> length rest = 22 \<and> (\<forall>ch \<in> set rest. is_id_char ch)"
    by (simp add: is_channel_id_def toLowerCase_def lower_char_eq_u lower_char_eq_c list_all_iff)
next
  assume "\<exists>a b rest. raw = a # b # rest \<and> (a = CHR ''u'' \<or> a = CHR ''U'')
        \<and> (b = CHR ''c'' \<or> b = CHR ''C'') \<and> length rest = 22 \<and> (\<forall>ch \<in> set rest. is_id_char ch)"
  then obtain a b rest where raw: "raw = a # b # rest"
    and ab: "a = CHR ''u'' \<or> a = CHR ''U''" "b = CHR ''c'' \<or> b = CHR ''C''"
    and rest: "length rest = 22" "\<forall>ch \<in> set rest. is_id_char ch"
    by blast
  show "is_channel_id raw"
    unfolding raw using ab rest
    by (simp add: is_channel_id_def toLowerCase_def lower_char_eq_u lower_char_eq_c list_all_iff)
qed

lemma trim_Nil: "trim [] = []"
  by (simp add: trim_def)

lemma normalizeYouTubeChannelEntry_blank:
  "trim v = [] \<Longrightarrow> normalizeYouTubeChannelEntry parse v = None"
  by (simp add: normalizeYouTubeChannelEntry_def)

lemma normalizeYouTubeChannelEntry_token:
  assumes "trim v \<noteq> []"
  shows "normalizeYouTubeChannelEntry parse v =
     Some \<lparr>entry_type = (if is_channel_id (channel_token parse v) then Id_type
                          else if startsWith (channel_token parse v) ''@'' then Handle_type
                          else Name_type),
           entry_value = toLowerCase
             (if \<not> is_channel_id (channel_token parse v) \<and> startsWith (channel_token parse v) ''@''
              then drop 1 (channel_token parse v) else channel_token parse v)\<rparr>"
proof -
  from assms have "v \<noteq> []" by (auto simp: trim_Nil)
  with assms show ?thesis
    by (simp add: normalizeYouTubeChannelEntry_def channel_token_def Let_def)
qed

lemma normalizeYouTubeChannelEntry_lower:
  assumes "normalizeYouTubeChannelEntry parse v = Some e"
  shows "toLowerCase (entry_value e) = entry_value e"
proof (cases "trim v = []")
  case True
  with assms show ?thesis by (simp add: normalizeYouTubeChannelEntry_blank)
next
  case False
  from assms[unfolded normalizeYouTubeChannelEntry_token[OF False]]
  show ?thesis by (auto simp: toLowerCase_idem split: if_splits)
qed

text \<open>
  Claim C8. \<open>normalizeYouTubeChannelEntry\<close> returns null for an input that is empty or
  blank. Otherwise it classifies a token: the trimmed input, or for a link whose path is
  \<open>/channel/seg...\<close>, \<open>/@h...\<close> or \<open>/c/seg...\<close> the segment \<open>seg\<close>, respectively \<open>@h\<close>. The
  entry is of type id exactly when the token is \<open>u\<close> or \<open>U\<close>, \<open>c\<close> or \<open>C\<close>, and then 22
  characters out of letters, digits, \<open>_\<close> and \<open>-\<close>; else of type handle when the token
  starts with \<open>@\<close>, which the stored value drops; else of type name. The stored value is
  the lower-cased token, and lower-casing it again changes nothing.
\<close>

theorem normalizeYouTubeChannelEntry_classifies:
  "(trim v = [] \<longrightarrow> normalizeYouTubeChannelEntry parse v = None)
   \<and> (trim v \<noteq> [] \<longrightarrow>
        normalizeYouTubeChannelEntry parse v =
          Some \<lparr>entry_type = (if is_channel_id (channel_token parse v) then Id_type
                               else if startsWith (channel_token parse v) ''@'' then Handle_type
                               else Name_type),
                entry_value = toLowerCase
                  (if \<not> is_channel_id (channel_token parse v) \<and> startsWith (channel_token parse v) ''@''
                   then drop 1 (channel_token parse v) else channel_token parse v)\<rparr>)
   \<and> (normalizeYouTubeChannelEntry parse v = Some e \<longrightarrow> toLowerCase (entry_value e) = entry_value e)
   \<and> (is_channel_id raw \<longleftrightarrow>
        (\<exists>a b rest. raw = a # b # rest \<and> (a = CHR ''u'' \<or> a = CHR ''U'')
           \<and> (b = CHR ''c'' \<or> b = CHR ''C'')
           \<and> length rest = 22 \<and> (\<forall>ch \<in> set rest. is_id_char ch)))
   \<and> (is_http_link (trim v) \<and> parse (trim v) = Some (''/channel/'' @ seg @ rest)
        \<and> segment seg \<and> path_rest rest \<longrightarrow> channel_token parse v = seg)
   \<and> (is_http_link (trim v) \<and> parse (trim v) = Some (''/@'' @ h @ rest)
        \<and> CHR ''/'' \<notin> set h \<and> path_rest rest \<longrightarrow> channel_token parse v = CHR ''@'' # h)
   \<and> (is_http_link (trim v) \<and> parse (trim v) = Some (''/c/'' @ seg @ rest)
        \<and> segment seg \<and> path_rest rest \<longrightarrow> channel_token parse v = seg)
   \<and> (\<not> is_http_link (trim v) \<longrightarrow> channel_token parse v = trim v)"
proof (intro conjI impI)
  show "is_channel_id raw \<longleftrightarrow>
        (\<exists>a b rest. raw = a # b # rest \<and> (a = CHR ''u'' \<or> a = CHR ''U'')
           \<and> (b = CHR ''c'' \<or> b = CHR ''C'')
           \<and> length rest = 22 \<and> (\<forall>ch \<in> set rest. is_id_char ch))"
    by (rule is_channel_id_iff)
qed (simp_all add: normalizeYouTubeChannelEntry_blank normalizeYouTubeChannelEntry_token
      normalizeYouTubeChannelEntry_lower channel_token_def rewrite_link_channel
      rewrite_link_handle rewrite_link_custom)

theorem normalizeYouTubeChannelEntry_classifies_witness:
  "normalizeYouTubeChannelEntry example_parser ''   '' = None
   \<and> normalizeYouTubeChannelEntry example_parser example_link
       = Some \<lparr>entry_type = Id_type, entry_value = ''ucabcdefghijklmnopqrstuv''\<rparr>
   \<and> normalizeYouTubeChannelEntry example_parser ''@Some.Handle''
       = Some \<lparr>entry_type = Handle_type, entry_value = ''some.handle''\<rparr>
   \<and> normalizeYouTubeChannelEntry example_parser ''Some Channel''
       = Some \<lparr>entry_type = Name_type, entry_value = ''some channel''\<rparr>"
proof -
  let ?id = "''UCabcdefghijklmnopqrstuv''"
  have blank: "trim ''   '' = []" by code_simp
  have link: "trim example_link \<noteq> []" "is_http_link (trim example_link)" by code_simp+
  have parsed: "example_parser (trim example_link) = Some (''/channel/'' @ ?id @ ''/videos'')"
    by (simp add: example_parser_def)
  have seg: "segment ?id" "path_rest ''/videos''" by code_simp+
  have isid: "is_channel_id ?id" "toLowerCase ?id = ''ucabcdefghijklmnopqrstuv''" by code_simp+
  have h: "trim ''@Some.Handle'' = ''@Some.Handle''" "\<not> is_http_link ''@Some.Handle''"
    "\<not> is_channel_id ''@Some.Handle''" "startsWith ''@Some.Handle'' ''@''"
    "toLowerCase ''Some.Handle'' = ''some.handle''"
    by code_simp+
  have n: "trim ''Some Channel'' = ''Some Channel''" "\<not> is_http_link ''Some Channel''"
    "\<not> is_channel_id ''Some Channel''" "\<not> startsWith ''Some Channel'' ''@''"
    "toLowerCase ''Some Channel'' = ''some channel''"
    by code_simp+
  have 1: "normalizeYouTubeChannelEntry example_parser ''   '' = None"
    using normalizeYouTubeChannelEntry_classifies[of "''   ''" example_parser] blank by blast
  have tok: "channel_token example_parser example_link = ?id"
    using normalizeYouTubeChannelEntry_classifies[of example_link example_parser _ _ ?id "''/videos''"]
      link parsed seg by blast
  have 2: "normalizeYouTubeChannelEntry example_parser example_link
       = Some \<lparr>entry_type = Id_type, entry_value = ''ucabcdefghijklmnopqrstuv''\<rparr>"
    using normalizeYouTubeChannelEntry_classifies[of example_link example_parser] link(1)
    by (simp add: tok isid)
  have tokh: "channel_token example_parser ''@Some.Handle'' = ''@Some.Handle''"
    using normalizeYouTubeChannelEntry_classifies[of "''@Some.Handle''" example_parser] h(1,2)
    by simp
  have 3: "normalizeYouTubeChannelEntry example_parser ''@Some.Handle''
       = Some \<lparr>entry_type = Handle_type, entry_value = ''some.handle''\<rparr>"
    using normalizeYouTubeChannelEntry_classifies[of "''@Some.Handle''" example_parser] h
    by (simp add: tokh)
  have tokn: "channel_token example_parser ''Some Channel'' = ''Some Channel''"
    using normalizeYouTubeChannelEntry_classifies[of "''Some Channel''" example_parser] n(1,2)
    by simp
  have 4: "normalizeYouTubeChannelEntry example_parser ''Some Channel''
       = Some \<lparr>entry_type = Name_type, entry_value = ''some channel''\<rparr>"
    using normalizeYouTubeChannelEntry_classifies[of "''Some Channel''" example_parser] n
    by (simp add: tokn)
  from 1 2 3 4 show ?thesis by blast
qed

subsection \<open>Maps and pruning\<close>

lemma Map_get_Map_set:
  "Map_get (Map_set k v m) k' = (if k' = k then Some v else Map_get m k')"
proof (cases "map_of m k")
  case None
  then show ?thesis
    by (simp add: Map_get_def Map_set_def map_add_def split: option.splits)
next
  case (Some old)
  have "map_of (map (\<lambda>(k', v'). if k' = k then (k', v) else (k', v')) m) k'
          = (if k' = k then (if map_of m k = None then None else Some v) else map_of m k')"
    by (induction m) auto
  with Some show ?thesis by (simp add: Map_get_def Map_set_def)
qed

lemma keys_Map_set:
  "map fst (Map_set k v m) = (if map_of m k = None then map fst m @ [k] else map fst m)"
proof -
  have "map fst (map (\<lambda>(k', v'). if k' = k then (k', v) else (k', v')) m) = map fst m"
    by (induction m) auto
  then show ?thesis by (auto simp: Map_set_def split: option.splits)
qed

lemma keys_distinct_Map_set: "keys_distinct m \<Longrightarrow> keys_distinct (Map_set k v m)"
  by (auto simp: keys_distinct_def keys_Map_set map_of_eq_None_iff)

lemma length_Map_set:
  "length (Map_set k v m) = (if map_of m k = None then Suc (length m) else length m)"
  by (auto simp: Map_set_def split: option.splits)

lemma keys_distinct_Map_delete: "keys_distinct m \<Longrightarrow> keys_distinct (Map_delete k m)"
  by (simp add: keys_distinct_def Map_delete_def distinct_map_filter)

lemma keys_Map_delete: "fst ` set (Map_delete k m) = fst ` set m - {k}"
  by (auto simp: Map_delete_def image_iff)

lemma length_Map_delete:
  assumes "keys_distinct m" "k \<in> fst ` set m"
  shows "Suc (length (Map_delete k m)) = length m"
  using assms
proof (induction m)
  case Nil
  then show ?case by simp
next
  case (Cons x m)
  obtain k' v' where x: "x = (k', v')" by (cases x)
  show ?case
  proof (cases "k' = k")
    case True
    with Cons.prems x have "k \<notin> fst ` set m" by (auto simp: keys_distinct_def)
    then have "filter (\<lambda>(k', v'). k' \<noteq> k) m = m"
      by (auto simp: filter_id_conv image_iff)
    with True x show ?thesis by (simp add: Map_delete_def)
  next
    case False
    with Cons x show ?thesis by (auto simp: Map_delete_def keys_distinct_def)
  qed
qed

lemma prune_loop_filter:
  assumes "keys_distinct c" "keys_distinct es" "fst ` set es \<subseteq> fst ` set c"
  shows "prune_loop M c es
           = filter (\<lambda>(k, e). k \<notin> fst ` set (take (length c - M) es)) c"
  using assms
proof (induction es arbitrary: c)
  case Nil
  then show ?case by simp
next
  case (Cons x es)
  obtain k e where x: "x = (k, e)" by (cases x)
  show ?case
  proof (cases "M < length c")
    case False
    then show ?thesis by (simp add: x)
  next
    case True
    let ?c = "Map_delete k c"
    have kc: "k \<in> fst ` set c" using Cons.prems(3) x by auto
    have kes: "k \<notin> fst ` set es" using Cons.prems(2) x by (auto simp: keys_distinct_def)
    have len: "Suc (length ?c) = length c" using Cons.prems(1) kc by (rule length_Map_delete)
    have IH: "prune_loop M ?c es
                = filter (\<lambda>(k, e). k \<notin> fst ` set (take (length ?c - M) es)) ?c"
    proof (rule Cons.IH)
      show "keys_distinct ?c" using Cons.prems(1) by (rule keys_distinct_Map_delete)
      show "keys_distinct es" using Cons.prems(2) by (simp add: keys_distinct_def)
      show "fst ` set es \<subseteq> fst ` set ?c"
        using Cons.prems(3) kes by (auto simp: keys_Map_delete)
    qed
    have "length c - M = Suc (length ?c - M)" using True len by arith
    then have tk: "take (length c - M) (x # es) = x # take (length ?c - M) es"
      by simp
    have "prune_loop M c (x # es) = prune_loop M ?c es"
      using True by (simp add: x)
    also have "\<dots> = filter (\<lambda>(k, e). k \<notin> fst ` set (take (length ?c - M) es)) ?c"
      by (rule IH)
    also have "\<dots> = filter (\<lambda>(k, e). k \<notin> fst ` set (take (length c - M) (x # es))) c"
      unfolding tk by (auto simp: Map_delete_def x intro: filter_cong)
    finally show ?thesis .
  qed
qed

lemma length_prune_loop:
  assumes "keys_distinct c" "keys_distinct es" "fst ` set es \<subseteq> fst ` set c"
  shows "length (prune_loop M c es) \<le> max M (length c - length es)"
  using assms
proof (induction es arbitrary: c)
  case Nil
  then show ?case by simp
next
  case (Cons x es)
  obtain k e where x: "x = (k, e)" by (cases x)
  show ?case
  proof (cases "M < length c")
    case False
    then show ?thesis by (simp add: x)
  next
    case True
    let ?c = "Map_delete k c"
    have kc: "k \<in> fst ` set c" using Cons.prems(3) x by auto
    have kes: "k \<notin> fst ` set es" using Cons.prems(2) x by (auto simp: keys_distinct_def)
    have len: "Suc (length ?c) = length c" using Cons.prems(1) kc by (rule length_Map_delete)
    have "length (prune_loop M ?c es) \<le> max M (length ?c - length es)"
    proof (rule Cons.IH)
      show "keys_distinct ?c" using Cons.prems(1) by (rule keys_distinct_Map_delete)
      show "keys_distinct es" using Cons.prems(2) by (simp add: keys_distinct_def)
      show "fst ` set es \<subseteq> fst ` set ?c"
        using Cons.prems(3) kes by (auto simp: keys_Map_delete)
    qed
    with True len show ?thesis by (simp add: x)
  qed
qed

lemma keys_distinct_sort_key: "keys_distinct c \<Longrightarrow> keys_distinct (sort_key f c)"
  by (simp add: keys_distinct_def distinct_map)

lemma pruneCache_filter:
  assumes "keys_distinct c"
  shows "pruneCache M c = filter (\<lambda>(k, e). k \<notin> fst ` set (evicted M c)) c"
proof (cases "length c \<le> M")
  case True
  then show ?thesis by (simp add: pruneCache_def evicted_def)
next
  case False
  have "prune_loop M c (sort_key (\<lambda>(k, e). timestamp e) c)
          = filter (\<lambda>(k, e). k \<notin> fst ` set (take (length c - M) (sort_key (\<lambda>(k, e). timestamp e) c))) c"
    using assms by (intro prune_loop_filter keys_distinct_sort_key) simp_all
  with False show ?thesis by (simp add: pruneCache_def evicted_def)
qed

lemma length_pruneCache:
  assumes "keys_distinct c"
  shows "length (pruneCache M c) \<le> M"
proof (cases "length c \<le> M")
  case True
  then show ?thesis by (simp add: pruneCache_def)
next
  case False
  have "length (prune_loop M c (sort_key (\<lambda>(k, e). timestamp e) c))
          \<le> max M (length c - length (sort_key (\<lambda>(k, e). timestamp e) c))"
    using assms by (intro length_prune_loop keys_distinct_sort_key) simp_all
  with False show ?thesis by (simp add: pruneCache_def)
qed

lemma keys_distinct_pruneCache:
  assumes "keys_distinct c"
  shows "keys_distinct (pruneCache M c)"
  unfolding pruneCache_filter[OF assms]
  using assms by (simp add: keys_distinct_def distinct_map_filter)

lemma evicted_oldest:
  assumes "keys_distinct c" "a \<in> set (evicted M c)" "b \<in> set (pruneCache M c)"
  shows "timestamp (snd a) \<le> timestamp (snd b)"
proof -
  let ?f = "\<lambda>(k, e). timestamp e"
  let ?s = "sort_key ?f c"
  let ?n = "length c - M"
  from assms(3) have b: "b \<in> set c" "fst b \<notin> fst ` set (evicted M c)"
    unfolding pruneCache_filter[OF assms(1)] by force+
  from b(2) have "b \<notin> set (evicted M c)" by (meson imageI)
  then have "b \<notin> set (take ?n ?s)" by (simp add: evicted_def)
  moreover have "b \<in> set ?s" using b(1) by simp
  moreover have split: "set ?s = set (take ?n ?s) \<union> set (drop ?n ?s)"
    by (metis append_take_drop_id set_append)
  ultimately have bd: "b \<in> set (drop ?n ?s)" by blast
  have "sorted (map ?f ?s)" by simp
  then have "sorted (map ?f (take ?n ?s) @ map ?f (drop ?n ?s))"
    by (metis append_take_drop_id map_append)
  then have "\<forall>x \<in> set (take ?n ?s). \<forall>y \<in> set (drop ?n ?s). ?f x \<le> ?f y"
    unfolding sorted_append by auto
  with assms(2) bd have "?f a \<le> ?f b" by (auto simp: evicted_def)
  then show ?thesis by (simp add: split_def)
qed

lemma insort_key_snoc:
  "f y \<le> f x \<Longrightarrow> insort_key f y (zs @ [x]) = insort_key f y zs @ [x]"
  by (induction zs) auto

lemma sort_key_snoc:
  "\<forall>y \<in> set xs. f y \<le> f x \<Longrightarrow> sort_key f (xs @ [x]) = sort_key f xs @ [x]"
proof (induction xs)
  case Nil
  show ?case by simp
next
  case (Cons y xs)
  then have IH: "sort_key f (xs @ [x]) = sort_key f xs @ [x]" and yx: "f y \<le> f x"
    by simp_all
  have "sort_key f ((y # xs) @ [x]) = insort_key f y (sort_key f (xs @ [x]))" by simp
  also have "\<dots> = insort_key f y (sort_key f xs @ [x])" by (simp only: IH)
  also have "\<dots> = insort_key f y (sort_key f xs) @ [x]" using yx by (rule insort_key_snoc)
  finally show ?case by simp
qed

lemma new_entry_not_evicted:
  assumes "keys_distinct c" "length c \<le> M" "0 < M" "stamped_by (timestamp e) c"
  shows "k \<notin> fst ` set (evicted M (Map_set k e c))"
proof (cases "map_of c k")
  case (Some old)
  then have "length (Map_set k e c) = length c" by (simp add: length_Map_set)
  with assms(2) show ?thesis by (simp add: evicted_def)
next
  case None
  let ?f = "\<lambda>(k, e). timestamp e"
  have set: "Map_set k e c = c @ [(k, e)]" using None by (simp add: Map_set_def)
  have "\<forall>y \<in> set c. ?f y \<le> ?f (k, e)"
    using assms(4) by (auto simp: stamped_by_def list_all_iff)
  then have sorted: "sort_key ?f (c @ [(k, e)]) = sort_key ?f c @ [(k, e)]"
    by (rule sort_key_snoc)
  have n: "length (c @ [(k, e)]) - M \<le> length (sort_key ?f c)"
    using assms(3) by simp
  have "evicted M (Map_set k e c) = take (length (c @ [(k, e)]) - M) (sort_key ?f c)"
    unfolding evicted_def set sorted using n by simp
  then have "fst ` set (evicted M (Map_set k e c)) \<subseteq> fst ` set (sort_key ?f c)"
    by (metis image_mono set_take_subset)
  moreover have "k \<notin> fst ` set c" using None by (simp add: map_of_eq_None_iff)
  ultimately show ?thesis by auto
qed

lemma new_entry_kept:
  assumes "keys_distinct c" "length c \<le> M" "0 < M" "stamped_by (timestamp e) c"
  shows "Map_get (pruneCache M (Map_set k e c)) k = Some e"
proof -
  let ?c = "Map_set k e c"
  have d: "keys_distinct ?c" using assms(1) by (rule keys_distinct_Map_set)
  have "map_of ?c k = Some e" using Map_get_Map_set[of k e c k] by (simp add: Map_get_def)
  moreover have "k \<notin> fst ` set (evicted M ?c)" using assms by (rule new_entry_not_evicted)
  ultimately have "map_of (filter (\<lambda>(k, e). k \<notin> fst ` set (evicted M ?c)) ?c) k = Some e"
    by (rule map_of_filter_in)
  then show ?thesis by (simp add: Map_get_def pruneCache_filter[OF d])
qed

lemma Map_get_Map_delete: "Map_get (Map_delete k m) k = None"
  by (simp add: Map_get_def Map_delete_def map_of_eq_None_iff image_iff)

lemma fresh_entry_hit:
  "cached = Some c \<Longrightarrow> now - timestamp c < ttl \<Longrightarrow> fresh_entry ttl now cached = Some c"
  by (simp add: fresh_entry_def)

lemma fresh_entry_miss:
  "absent_or_expired ttl now cached \<Longrightarrow> fresh_entry ttl now cached = None"
  by (auto simp: fresh_entry_def absent_or_expired_def split: option.splits)

subsection \<open>Cached lookups\<close>

lemma fetchYouTubeVideoInfo_hit:
  assumes "Map_get (youtubeVideoCache s) k = Some c" "now - timestamp c < YOUTUBE_CACHE_TTL_MS"
  shows "fetchYouTubeVideoInfo now reply k s = (Inr (data c), s)"
  using fresh_entry_hit[OF assms] by (simp add: fetchYouTubeVideoInfo_def)

lemma fetchYouTubeVideoInfo_miss:
  assumes "absent_or_expired YOUTUBE_CACHE_TTL_MS now (Map_get (youtubeVideoCache s) k)"
  shows "fetches (snd (fetchYouTubeVideoInfo now reply k s)) = fetches s @ [VideosCall k]"
    and "fst (fetchYouTubeVideoInfo now reply k s)
           = fst (fetchYouTubeVideoInfo now reply k
                    (s\<lparr>youtubeVideoCache := Map_delete k (youtubeVideoCache s)\<rparr>))"
proof -
  have a: "fresh_entry YOUTUBE_CACHE_TTL_MS now (Map_get (youtubeVideoCache s) k) = None"
    using assms by (rule fresh_entry_miss)
  have b: "fresh_entry YOUTUBE_CACHE_TTL_MS now (Map_get (Map_delete k (youtubeVideoCache s)) k) = None"
    by (simp add: Map_get_Map_delete fresh_entry_def)
  show "fetches (snd (fetchYouTubeVideoInfo now reply k s)) = fetches s @ [VideosCall k]"
    by (cases reply) (simp_all add: fetchYouTubeVideoInfo_def a Let_def)
  show "fst (fetchYouTubeVideoInfo now reply k s)
           = fst (fetchYouTubeVideoInfo now reply k
                    (s\<lparr>youtubeVideoCache := Map_delete k (youtubeVideoCache s)\<rparr>))"
    by (cases reply) (simp_all add: fetchYouTubeVideoInfo_def a b Let_def)
qed

lemma fetchYouTubeVideoInfo_bounded:
  assumes "caches_bounded s"
  shows "caches_bounded (snd (fetchYouTubeVideoInfo now reply k s))"
proof (cases "fresh_entry YOUTUBE_CACHE_TTL_MS now (Map_get (youtubeVideoCache s) k)")
  case (Some c)
  with assms show ?thesis by (simp add: fetchYouTubeVideoInfo_def)
next
  case None
  have d: "keys_distinct (Map_set k e (youtubeVideoCache s))" for e
    using assms by (simp add: caches_bounded_def keys_distinct_Map_set)
  have "keys_distinct (pruneCache 100 (Map_set k e (youtubeVideoCache s)))"
    "length (pruneCache 100 (Map_set k e (youtubeVideoCache s))) \<le> 100" for e
    using d[of e] by (simp_all add: keys_distinct_pruneCache length_pruneCache)
  with assms None show ?thesis
    by (cases reply)
       (simp_all add: fetchYouTubeVideoInfo_def Let_def caches_bounded_def pruneYouTubeVideoCache_def)
qed

lemma fetchYouTubeVideoInfo_twice:
  assumes wf: "keys_distinct (youtubeVideoCache s)" "length (youtubeVideoCache s) \<le> 100"
      "stamped_by now1 (youtubeVideoCache s)"
    and miss: "absent_or_expired YOUTUBE_CACHE_TTL_MS now1 (Map_get (youtubeVideoCache s) k)"
    and within: "now2 - now1 < YOUTUBE_CACHE_TTL_MS"
  shows "fetchYouTubeVideoInfo now2 reply2 k (snd (fetchYouTubeVideoInfo now1 (HttpOk item) k s))
           = fetchYouTubeVideoInfo now1 (HttpOk item) k s"
proof -
  let ?r = "map_option (\<lambda>(cid, title). \<lparr>channelId = trim cid, channelTitle = trim title\<rparr>) item"
  let ?e = "\<lparr>timestamp = now1, data = ?r\<rparr>"
  let ?s1 = "s\<lparr>fetches := fetches s @ [VideosCall k],
               youtubeVideoCache := pruneYouTubeVideoCache (Map_set k ?e (youtubeVideoCache s))\<rparr>"
  have a: "fresh_entry YOUTUBE_CACHE_TTL_MS now1 (Map_get (youtubeVideoCache s) k) = None"
    using miss by (rule fresh_entry_miss)
  have first: "fetchYouTubeVideoInfo now1 (HttpOk item) k s = (Inr ?r, ?s1)"
    by (simp add: fetchYouTubeVideoInfo_def a Let_def)
  have "Map_get (pruneCache 100 (Map_set k ?e (youtubeVideoCache s))) k = Some ?e"
    using wf by (intro new_entry_kept) simp_all
  then have kept: "Map_get (youtubeVideoCache ?s1) k = Some ?e"
    by (simp add: pruneYouTubeVideoCache_def)
  have "fetchYouTubeVideoInfo now2 reply2 k ?s1 = (Inr (data ?e), ?s1)"
    using kept by (rule fetchYouTubeVideoInfo_hit) (simp add: within)
  then show ?thesis by (simp add: first)
qed

lemma fetchYouTubeChannelInfo_hit:
  assumes "trim cid \<noteq> []" "Map_get (youtubeChannelCache s) (trim cid) = Some c"
    "now - timestamp c < YOUTUBE_CHANNEL_CACHE_TTL_MS"
  shows "fetchYouTubeChannelInfo now reply cid s = (Inr (data c), s)"
  using fresh_entry_hit[OF assms(2,3)] assms(1) by (simp add: fetchYouTubeChannelInfo_def Let_def)

lemma fetchYouTubeChannelInfo_miss:
  assumes "trim cid \<noteq> []"
    "absent_or_expired YOUTUBE_CHANNEL_CACHE_TTL_MS now (Map_get (youtubeChannelCache s) (trim cid))"
  shows "fetches (snd (fetchYouTubeChannelInfo now reply cid s)) = fetches s @ [ChannelsCall (trim cid)]"
    and "fst (fetchYouTubeChannelInfo now reply cid s)
           = fst (fetchYouTubeChannelInfo now reply cid
                    (s\<lparr>youtubeChannelCache := Map_delete (trim cid) (youtubeChannelCache s)\<rparr>))"
proof -
  have a: "fresh_entry YOUTUBE_CHANNEL_CACHE_TTL_MS now (Map_get (youtubeChannelCache s) (trim cid)) = None"
    using assms(2) by (rule fresh_entry_miss)
  have b: "fresh_entry YOUTUBE_CHANNEL_CACHE_TTL_MS now
             (Map_get (Map_delete (trim cid) (youtubeChannelCache s)) (trim cid)) = None"
    by (simp add: Map_get_Map_delete fresh_entry_def)
  show "fetches (snd (fetchYouTubeChannelInfo now reply cid s)) = fetches s @ [ChannelsCall (trim cid)]"
    using assms(1) by (cases reply) (simp_all add: fetchYouTubeChannelInfo_def a Let_def)
  show "fst (fetchYouTubeChannelInfo now reply cid s)
           = fst (fetchYouTubeChannelInfo now reply cid
                    (s\<lparr>youtubeChannelCache := Map_delete (trim cid) (youtubeChannelCache s)\<rparr>))"
    using assms(1) by (cases reply) (simp_all add: fetchYouTubeChannelInfo_def a b Let_def)
qed

lemma fetchYouTubeChannelInfo_bounded:
  assumes "caches_bounded s"
  shows "caches_bounded (snd (fetchYouTubeChannelInfo now reply cid s))"
proof (cases "trim cid = []")
  case True
  with assms show ?thesis by (simp add: fetchYouTubeChannelInfo_def)
next
  case ne: False
  show ?thesis
  proof (cases "fresh_entry YOUTUBE_CHANNEL_CACHE_TTL_MS now (Map_get (youtubeChannelCache s) (trim cid))")
    case (Some c)
    with assms ne show ?thesis by (simp add: fetchYouTubeChannelInfo_def Let_def)
  next
    case None
    have d: "keys_distinct (Map_set (trim cid) e (youtubeChannelCache s))" for e
      using assms by (simp add: caches_bounded_def keys_distinct_Map_set)
    have "keys_distinct (pruneCache 200 (Map_set (trim cid) e (youtubeChannelCache s)))"
      "length (pruneCache 200 (Map_set (trim cid) e (youtubeChannelCache s))) \<le> 200" for e
      using d[of e] by (simp_all add: keys_distinct_pruneCache length_pruneCache)
    with assms None ne show ?thesis
      by (cases reply)
         (simp_all add: fetchYouTubeChannelInfo_def Let_def caches_bounded_def
            pruneYouTubeChannelCache_def)
  qed
qed

lemma fetchYouTubeChannelInfo_twice:
  assumes ne: "trim cid \<noteq> []"
    and wf: "keys_distinct (youtubeChannelCache s)" "length (youtubeChannelCache s) \<le> 200"
      "stamped_by now1 (youtubeChannelCache s)"
    and miss: "absent_or_expired YOUTUBE_CHANNEL_CACHE_TTL_MS now1
                 (Map_get (youtubeChannelCache s) (trim cid))"
    and within: "now2 - now1 < YOUTUBE_CHANNEL_CACHE_TTL_MS"
  shows "fetchYouTubeChannelInfo now2 reply2 cid (snd (fetchYouTubeChannelInfo now1 (HttpOk url) cid s))
           = fetchYouTubeChannelInfo now1 (HttpOk url) cid s"
proof -
  let ?h = "case url of None \<Rightarrow> [] | Some u \<Rightarrow> if u = [] then [] else toLowerCase (trim u)"
  let ?e = "\<lparr>timestamp = now1, data = Some \<lparr>handle = ?h\<rparr>\<rparr>"
  let ?s1 = "s\<lparr>fetches := fetches s @ [ChannelsCall (trim cid)],
               youtubeChannelCache :=
                 pruneYouTubeChannelCache (Map_set (trim cid) ?e (youtubeChannelCache s))\<rparr>"
  have a: "fresh_entry YOUTUBE_CHANNEL_CACHE_TTL_MS now1 (Map_get (youtubeChannelCache s) (trim cid)) = None"
    using miss by (rule fresh_entry_miss)
  have first: "fetchYouTubeChannelInfo now1 (HttpOk url) cid s = (Inr (Some \<lparr>handle = ?h\<rparr>), ?s1)"
    using ne by (simp add: fetchYouTubeChannelInfo_def a Let_def)
  have "Map_get (pruneCache 200 (Map_set (trim cid) ?e (youtubeChannelCache s))) (trim cid) = Some ?e"
    using wf by (intro new_entry_kept) simp_all
  then have kept: "Map_get (youtubeChannelCache ?s1) (trim cid) = Some ?e"
    by (simp add: pruneYouTubeChannelCache_def)
  have "fetchYouTubeChannelInfo now2 reply2 cid ?s1 = (Inr (data ?e), ?s1)"
    using ne kept by (rule fetchYouTubeChannelInfo_hit) (simp add: within)
  then show ?thesis by (simp add: first)
qed

lemma stamped_by_mono: "stamped_by now c \<Longrightarrow> now \<le> now' \<Longrightarrow> stamped_by now' c"
  by (auto simp: stamped_by_def list_all_iff)

lemma set_Map_set_subset: "set (Map_set k e c) \<subseteq> insert (k, e) (set c)"
  by (auto simp: Map_set_def split: option.splits if_splits)

lemma set_prune_loop_subset: "set (prune_loop M c es) \<subseteq> set c"
proof (induction es arbitrary: c)
  case Nil
  show ?case by simp
next
  case (Cons x es)
  obtain k e where x: "x = (k, e)" by (cases x)
  have "set (prune_loop M (Map_delete k c) es) \<subseteq> set (Map_delete k c)" by (rule Cons.IH)
  also have "\<dots> \<subseteq> set c" by (auto simp: Map_delete_def)
  finally show ?case by (simp add: x)
qed

lemma stamped_by_insert:
  assumes "stamped_by now c" "timestamp e \<le> now"
  shows "stamped_by now (pruneCache M (Map_set k e c))"
proof -
  have "set (pruneCache M (Map_set k e c)) \<subseteq> set (Map_set k e c)"
    by (simp add: pruneCache_def set_prune_loop_subset)
  also have "\<dots> \<subseteq> insert (k, e) (set c)" by (rule set_Map_set_subset)
  finally show ?thesis
    using assms by (auto simp: stamped_by_def list_all_iff)
qed

lemma fetchYouTubeVideoInfo_stamped:
  assumes "stamped_by now (youtubeVideoCache s)"
  shows "stamped_by now (youtubeVideoCache (snd (fetchYouTubeVideoInfo now reply k s)))"
proof (cases "fresh_entry YOUTUBE_CACHE_TTL_MS now (Map_get (youtubeVideoCache s) k)")
  case (Some c)
  with assms show ?thesis by (simp add: fetchYouTubeVideoInfo_def)
next
  case None
  have "stamped_by now (pruneCache 100 (Map_set k \<lparr>timestamp = now, data = r\<rparr> (youtubeVideoCache s)))"
    for r
    using assms by (rule stamped_by_insert) simp
  with assms None show ?thesis
    by (cases reply) (simp_all add: fetchYouTubeVideoInfo_def Let_def pruneYouTubeVideoCache_def)
qed

lemma fetchYouTubeChannelInfo_stamped:
  assumes "stamped_by now (youtubeChannelCache s)"
  shows "stamped_by now (youtubeChannelCache (snd (fetchYouTubeChannelInfo now reply cid s)))"
proof (cases "trim cid = []")
  case True
  with assms show ?thesis by (simp add: fetchYouTubeChannelInfo_def)
next
  case ne: False
  show ?thesis
  proof (cases "fresh_entry YOUTUBE_CHANNEL_CACHE_TTL_MS now (Map_get (youtubeChannelCache s) (trim cid))")
    case (Some c)
    with assms ne show ?thesis by (simp add: fetchYouTubeChannelInfo_def Let_def)
  next
    case None
    have "stamped_by now
            (pruneCache 200 (Map_set (trim cid) \<lparr>timestamp = now, data = r\<rparr> (youtubeChannelCache s)))"
      for r
      using assms by (rule stamped_by_insert) simp
    with assms None ne show ?thesis
      by (cases reply)
         (simp_all add: fetchYouTubeChannelInfo_def Let_def pruneYouTubeChannelCache_def)
  qed
qed

text \<open>
  Claim C7, as the specification words it, fails in two ways. When the first lookup is
  answered with an error (here HTTP 500) nothing is cached, and the second lookup within
  the TTL issues a second call. And when the cache is at its bound with entries stamped
  after the clock of the first lookup, the entry just inserted is the oldest and is the
  one pruned, so the second lookup issues a second call as well.
\<close>

theorem lookup_twice_counterexample:
  "(2000 :: int) - 1000 < YOUTUBE_CACHE_TTL_MS
   \<and> fetches (snd (fetchYouTubeVideoInfo 2000 (HttpOk None) ''vid1''
        (snd (fetchYouTubeVideoInfo 1000 (HttpError 500 []) ''vid1'' empty_bg))))
       = [VideosCall ''vid1'', VideosCall ''vid1'']
   \<and> length (youtubeVideoCache future_bg) = 100
   \<and> fetches (snd (fetchYouTubeVideoInfo 2000 (HttpOk None) ''vid1''
        (snd (fetchYouTubeVideoInfo 1000 (HttpOk None) ''vid1'' future_bg))))
       = [VideosCall ''vid1'', VideosCall ''vid1'']"
  by (intro conjI; code_simp)

text \<open>
  Claim C7, amended. For the video cache and the channel cache alike: a lookup that
  finds an entry younger than the TTL returns the entry's value, null included, and
  leaves the state as it is, so no call is issued; a lookup that finds no entry, or one
  whose age has reached the TTL, issues one call and answers as if the entry were
  deleted. When a lookup misses and the API answers with a parsed body, on a cache within
  its bound whose timestamps are not after the clock, then a second lookup of the same
  key that starts after the first has returned, within the TTL, returns the same value
  and state whatever the API would reply: the two lookups issue exactly one call.
  Timestamps are not after the clock on the empty cache, stay so through a lookup, and
  stay so when the clock advances. A lookup keeps the caches within their bounds (100
  and 200 entries, one entry per key). \<open>pruneCache\<close> removes exactly the first entries in
  timestamp order that exceed the bound, leaves at most the bound, and no removed entry
  is younger than a kept one.
\<close>

theorem lookup_caches:
  "(Map_get (youtubeVideoCache s) k = Some c \<and> now - timestamp c < YOUTUBE_CACHE_TTL_MS \<longrightarrow>
      fetchYouTubeVideoInfo now reply k s = (Inr (data c), s))
   \<and> (absent_or_expired YOUTUBE_CACHE_TTL_MS now (Map_get (youtubeVideoCache s) k) \<longrightarrow>
      fetches (snd (fetchYouTubeVideoInfo now reply k s)) = fetches s @ [VideosCall k]
      \<and> fst (fetchYouTubeVideoInfo now reply k s)
          = fst (fetchYouTubeVideoInfo now reply k
                   (s\<lparr>youtubeVideoCache := Map_delete k (youtubeVideoCache s)\<rparr>)))
   \<and> (keys_distinct (youtubeVideoCache s) \<and> length (youtubeVideoCache s) \<le> 100
        \<and> stamped_by now (youtubeVideoCache s)
        \<and> absent_or_expired YOUTUBE_CACHE_TTL_MS now (Map_get (youtubeVideoCache s) k)
        \<and> now2 - now < YOUTUBE_CACHE_TTL_MS \<longrightarrow>
      fetchYouTubeVideoInfo now2 reply2 k (snd (fetchYouTubeVideoInfo now (HttpOk item) k s))
        = fetchYouTubeVideoInfo now (HttpOk item) k s
      \<and> fetches (snd (fetchYouTubeVideoInfo now2 reply2 k
                         (snd (fetchYouTubeVideoInfo now (HttpOk item) k s))))
          = fetches s @ [VideosCall k])
   \<and> (trim cid \<noteq> [] \<and> Map_get (youtubeChannelCache s) (trim cid) = Some cc
        \<and> now - timestamp cc < YOUTUBE_CHANNEL_CACHE_TTL_MS \<longrightarrow>
      fetchYouTubeChannelInfo now creply cid s = (Inr (data cc), s))
   \<and> (trim cid \<noteq> []
        \<and> absent_or_expired YOUTUBE_CHANNEL_CACHE_TTL_MS now (Map_get (youtubeChannelCache s) (trim cid)) \<longrightarrow>
      fetches (snd (fetchYouTubeChannelInfo now creply cid s)) = fetches s @ [ChannelsCall (trim cid)]
      \<and> fst (fetchYouTubeChannelInfo now creply cid s)
          = fst (fetchYouTubeChannelInfo now creply cid
                   (s\<lparr>youtubeChannelCache := Map_delete (trim cid) (youtubeChannelCache s)\<rparr>)))
   \<and> (trim cid \<noteq> [] \<and> keys_distinct (youtubeChannelCache s) \<and> length (youtubeChannelCache s) \<le> 200
        \<and> stamped_by now (youtubeChannelCache s)
        \<and> absent_or_expired YOUTUBE_CHANNEL_CACHE_TTL_MS now (Map_get (youtubeChannelCache s) (trim cid))
        \<and> now2 - now < YOUTUBE_CHANNEL_CACHE_TTL_MS \<longrightarrow>
      fetchYouTubeChannelInfo now2 creply2 cid (snd (fetchYouTubeChannelInfo now (HttpOk url) cid s))
        = fetchYouTubeChannelInfo now (HttpOk url) cid s
      \<and> fetches (snd (fetchYouTubeChannelInfo now2 creply2 cid
                         (snd (fetchYouTubeChannelInfo now (HttpOk url) cid s))))
          = fetches s @ [ChannelsCall (trim cid)])
   \<and> (caches_bounded s \<longrightarrow>
        caches_bounded (snd (fetchYouTubeVideoInfo now reply k s))
        \<and> caches_bounded (snd (fetchYouTubeChannelInfo now creply cid s)))
   \<and> (keys_distinct cache \<longrightarrow>
        pruneCache M cache = filter (\<lambda>(k, e). k \<notin> fst ` set (evicted M cache)) cache
        \<and> length (pruneCache M cache) \<le> M
        \<and> (\<forall>a \<in> set (evicted M cache). \<forall>b \<in> set (pruneCache M cache).
              timestamp (snd a) \<le> timestamp (snd b)))
   \<and> pruneYouTubeVideoCache cache = pruneCache 100 cache
   \<and> pruneYouTubeChannelCache cache = pruneCache 200 cache
   \<and> YOUTUBE_CACHE_TTL_MS = 300000 \<and> YOUTUBE_CHANNEL_CACHE_TTL_MS = 600000
   \<and> caches_bounded empty_bg
   \<and> stamped_by now (youtubeVideoCache empty_bg) \<and> stamped_by now (youtubeChannelCache empty_bg)
   \<and> (stamped_by now (youtubeVideoCache s) \<longrightarrow>
        stamped_by now (youtubeVideoCache (snd (fetchYouTubeVideoInfo now reply k s))))
   \<and> (stamped_by now (youtubeChannelCache s) \<longrightarrow>
        stamped_by now (youtubeChannelCache (snd (fetchYouTubeChannelInfo now creply cid s))))
   \<and> (stamped_by now cache \<and> now \<le> now2 \<longrightarrow> stamped_by now2 cache)"
proof (intro conjI impI; (elim conjE)?)
  show "pruneYouTubeVideoCache cache = pruneCache 100 cache"
    by (simp add: pruneYouTubeVideoCache_def)
  show "pruneYouTubeChannelCache cache = pruneCache 200 cache"
    by (simp add: pruneYouTubeChannelCache_def)
  show "YOUTUBE_CACHE_TTL_MS = 300000" by (simp add: YOUTUBE_CACHE_TTL_MS_def)
  show "YOUTUBE_CHANNEL_CACHE_TTL_MS = 600000" by (simp add: YOUTUBE_CHANNEL_CACHE_TTL_MS_def)
  show "caches_bounded empty_bg"
    by (simp add: caches_bounded_def empty_bg_def keys_distinct_def)
  show "stamped_by now (youtubeVideoCache empty_bg)"
    by (simp add: stamped_by_def empty_bg_def)
  show "stamped_by now (youtubeChannelCache empty_bg)"
    by (simp add: stamped_by_def empty_bg_def)
  show "stamped_by now2 cache" if "stamped_by now cache" "now \<le> now2"
    using that by (rule stamped_by_mono)
  show "\<forall>a \<in> set (evicted M cache). \<forall>b \<in> set (pruneCache M cache).
              timestamp (snd a) \<le> timestamp (snd b)" if "keys_distinct cache"
    using that evicted_oldest[of cache _ M] by blast
  show "pruneCache M cache = filter (\<lambda>(k, e). k \<notin> fst ` set (evicted M cache)) cache"
    if "keys_distinct cache"
    using that by (rule pruneCache_filter)
  show "length (pruneCache M cache) \<le> M" if "keys_distinct cache"
    using that by (rule length_pruneCache)
  show "fetches (snd (fetchYouTubeVideoInfo now2 reply2 k
                         (snd (fetchYouTubeVideoInfo now (HttpOk item) k s))))
          = fetches s @ [VideosCall k]"
    if "keys_distinct (youtubeVideoCache s)" "length (youtubeVideoCache s) \<le> 100"
      "stamped_by now (youtubeVideoCache s)"
      "absent_or_expired YOUTUBE_CACHE_TTL_MS now (Map_get (youtubeVideoCache s) k)"
      "now2 - now < YOUTUBE_CACHE_TTL_MS"
    unfolding fetchYouTubeVideoInfo_twice[OF that]
    using that(4) by (rule fetchYouTubeVideoInfo_miss)
  show "fetches (snd (fetchYouTubeChannelInfo now2 creply2 cid
                         (snd (fetchYouTubeChannelInfo now (HttpOk url) cid s))))
          = fetches s @ [ChannelsCall (trim cid)]"
    if "trim cid \<noteq> []" "keys_distinct (youtubeChannelCache s)"
      "length (youtubeChannelCache s) \<le> 200" "stamped_by now (youtubeChannelCache s)"
      "absent_or_expired YOUTUBE_CHANNEL_CACHE_TTL_MS now (Map_get (youtubeChannelCache s) (trim cid))"
      "now2 - now < YOUTUBE_CHANNEL_CACHE_TTL_MS"
    unfolding fetchYouTubeChannelInfo_twice[OF that]
    using that(1,5) by (rule fetchYouTubeChannelInfo_miss)
qed (simp_all add: fetchYouTubeVideoInfo_hit fetchYouTubeVideoInfo_miss fetchYouTubeVideoInfo_twice
      fetchYouTubeChannelInfo_hit fetchYouTubeChannelInfo_miss fetchYouTubeChannelInfo_twice
      fetchYouTubeVideoInfo_bounded fetchYouTubeChannelInfo_bounded
      fetchYouTubeVideoInfo_stamped fetchYouTubeChannelInfo_stamped)

theorem lookup_caches_witness:
  "fetchYouTubeVideoInfo 2000 FetchRejected ''vid1''
      (snd (fetchYouTubeVideoInfo 1000 (HttpOk None) ''vid1'' empty_bg))
     = fetchYouTubeVideoInfo 1000 (HttpOk None) ''vid1'' empty_bg
   \<and> fetches (snd (fetchYouTubeVideoInfo 2000 FetchRejected ''vid1''
      (snd (fetchYouTubeVideoInfo 1000 (HttpOk None) ''vid1'' empty_bg)))) = [VideosCall ''vid1'']
   \<and> fetchYouTubeChannelInfo 2000 FetchRejected ''UCx''
      (snd (fetchYouTubeChannelInfo 1000 (HttpOk None) ''UCx'' empty_bg))
     = fetchYouTubeChannelInfo 1000 (HttpOk None) ''UCx'' empty_bg
   \<and> caches_bounded (snd (fetchYouTubeVideoInfo 1000 (HttpOk None) ''vid1'' empty_bg))
   \<and> pruneCache 2 example_cache
       = [(''a'', \<lparr>timestamp = 30, data = None\<rparr>), (''c'', \<lparr>timestamp = 20, data = None\<rparr>)]"
proof -
  have e: "keys_distinct (youtubeVideoCache empty_bg)" "length (youtubeVideoCache empty_bg) \<le> 100"
    "stamped_by 1000 (youtubeVideoCache empty_bg)"
    "absent_or_expired YOUTUBE_CACHE_TTL_MS 1000 (Map_get (youtubeVideoCache empty_bg) ''vid1'')"
    "keys_distinct (youtubeChannelCache empty_bg)" "length (youtubeChannelCache empty_bg) \<le> 200"
    "stamped_by 1000 (youtubeChannelCache empty_bg)"
    "fetches empty_bg = []" "caches_bounded empty_bg"
    by (simp_all add: empty_bg_def keys_distinct_def stamped_by_def absent_or_expired_def
        Map_get_def caches_bounded_def)
  have tr: "trim ''UCx'' = ''UCx''" by code_simp
  have ec: "absent_or_expired YOUTUBE_CHANNEL_CACHE_TTL_MS 1000
              (Map_get (youtubeChannelCache empty_bg) (trim ''UCx''))"
    by (simp add: empty_bg_def absent_or_expired_def Map_get_def)
  have t1: "(2000::int) - 1000 < YOUTUBE_CACHE_TTL_MS"
    and t2: "(2000::int) - 1000 < YOUTUBE_CHANNEL_CACHE_TTL_MS"
    by (simp_all add: YOUTUBE_CACHE_TTL_MS_def YOUTUBE_CHANNEL_CACHE_TTL_MS_def)
  have kd: "keys_distinct example_cache" by (simp add: keys_distinct_def example_cache_def)
  have ev: "fst ` set (evicted 2 example_cache) = {''b''}"
    by (simp add: evicted_def example_cache_def)
  note t = lookup_caches[of empty_bg "''vid1''" _ 1000 "HttpOk None" 2000 FetchRejected None
      "''UCx''" _ "HttpOk None" FetchRejected None example_cache 2]
  have 1: "fetchYouTubeVideoInfo 2000 FetchRejected ''vid1''
      (snd (fetchYouTubeVideoInfo 1000 (HttpOk None) ''vid1'' empty_bg))
     = fetchYouTubeVideoInfo 1000 (HttpOk None) ''vid1'' empty_bg"
    using t e t1 by blast
  have 2: "fetches (snd (fetchYouTubeVideoInfo 2000 FetchRejected ''vid1''
      (snd (fetchYouTubeVideoInfo 1000 (HttpOk None) ''vid1'' empty_bg)))) = [VideosCall ''vid1'']"
    using t e t1 by simp
  have 3: "fetchYouTubeChannelInfo 2000 FetchRejected ''UCx''
      (snd (fetchYouTubeChannelInfo 1000 (HttpOk None) ''UCx'' empty_bg))
     = fetchYouTubeChannelInfo 1000 (HttpOk None) ''UCx'' empty_bg"
    using t e ec t2 tr by simp
  have 4: "caches_bounded (snd (fetchYouTubeVideoInfo 1000 (HttpOk None) ''vid1'' empty_bg))"
    using t e by blast
  have "pruneCache 2 example_cache
          = filter (\<lambda>(k, e). k \<notin> fst ` set (evicted 2 example_cache)) example_cache"
    using t kd by blast
  then have 5: "pruneCache 2 example_cache
       = [(''a'', \<lparr>timestamp = 30, data = None\<rparr>), (''c'', \<lparr>timestamp = 20, data = None\<rparr>)]"
    unfolding ev by (simp add: example_cache_def)
  show ?thesis by (intro conjI 1 2 3 4 5)
qed

end
